theory Spec2Isabelle
  imports Main
begin

section \<open>FuseWire: values, errors and configuration\<close>

text \<open>
  JavaScript values as the runtime handles them.  Numbers are restricted to integers.
  An object carrying \<^verbatim>\<open>'fusewire-type': 'component'\<close> (the tagged component
  reference of the wire format) is the constructor \<open>JEnv\<close> with the fields mode,
  component, id, vars and version (\<open>None\<close> is JavaScript's \<^verbatim>\<open>undefined\<close>);
  \<open>JObj\<close> stands for every other plain object.  \<open>JComp\<close> is a live Component
  instance, named by its \<^verbatim>\<open>fuseWireComponentId\<close> (the only property of an instance the
  registry code ever follows), and \<open>JHolder\<close> a ContainerPlaceHolder.  Objects keep
  their keys in insertion order, hence association lists.
\<close>

datatype jsval =
    JUndefined
  | JNull
  | JBool bool
  | JNum int
  | JStr string
  | JArr "jsval list"
  | JObj "(string \<times> jsval) list"
  | JEnv "string option" string "string option" "(string \<times> jsval) list" "string option"
  | JComp string
  | JHolder string

type_synonym vars = "(string \<times> jsval) list"

datatype error =
    FuseWireError string
  | FuseWireComponentNotFound string
  | FuseWireTemplateNotFound string
  | FuseWireServerError string
  | TypeError string
  | RangeError
  | HookError string

text \<open>Property read \<^verbatim>\<open>obj[key]\<close> and property write \<^verbatim>\<open>obj[key] = v\<close> on a plain object.\<close>

definition getProp :: "vars \<Rightarrow> string \<Rightarrow> jsval" where
  "getProp obj key = (case map_of obj key of None \<Rightarrow> JUndefined | Some v \<Rightarrow> v)"

fun setProp :: "vars \<Rightarrow> string \<Rightarrow> jsval \<Rightarrow> vars" where
  "setProp [] key v = [(key, v)]"
| "setProp ((k, w) # obj) key v = (if k = key then (k, v) # obj else (k, w) # setProp obj key v)"

text \<open>The five reactor modes; a mode is the string the caller passes around.\<close>

definition CSR :: string where "CSR = ''CSR''"
definition CSR_ONLY :: string where "CSR_ONLY = ''CSR_ONLY''"
definition SERVER :: string where "SERVER = ''SERVER''"
definition SERVER_WAIT :: string where "SERVER_WAIT = ''SERVER_WAIT''"
definition SSR :: string where "SSR = ''SSR''"

definition ReactorModes :: "string list" where
  "ReactorModes = [CSR, CSR_ONLY, SERVER, SERVER_WAIT, SSR]"

text \<open>
  \<^verbatim>\<open>ReactorModes\<close> is an object literal, so the read \<^verbatim>\<open>ReactorModes[mode]\<close> also finds
  the properties every plain object inherits from \<^verbatim>\<open>Object.prototype\<close>.
\<close>

definition objectPrototypeKeys :: "string list" where
  "objectPrototypeKeys =
     [''constructor'', ''hasOwnProperty'', ''isPrototypeOf'', ''propertyIsEnumerable'',
      ''toLocaleString'', ''toString'', ''valueOf'', ''__proto__'',
      ''__defineGetter__'', ''__defineSetter__'', ''__lookupGetter__'', ''__lookupSetter__'']"

text \<open>
  The registry of instances and the in-flight counters are object literals used as
  dictionaries, so a read \<^verbatim>\<open>obj[key]\<close> finds the own property under the key, else the
  property of that name inherited from \<^verbatim>\<open>Object.prototype\<close> (a function, or the prototype
  itself under \<^verbatim>\<open>__proto__\<close>), else \<^verbatim>\<open>undefined\<close>.  None of the inherited values is a
  number, and none has a property the code reads from a value of these dictionaries.
\<close>

datatype 'a slot = Undefined | Inherited | Own 'a

definition readKey :: "(string \<rightharpoonup> 'a) \<Rightarrow> string \<Rightarrow> 'a slot" where
  "readKey obj key =
     (case obj key of
        Some v \<Rightarrow> Own v
      | None \<Rightarrow> if key \<in> set objectPrototypeKeys then Inherited else Undefined)"

record config =
  defaultReactorMode :: string
  useShadowElement :: bool
  fusewireTags :: "string \<times> string"

definition getComponentId :: "string \<Rightarrow> string option \<Rightarrow> string" where
  "getComponentId componentName componentId =
     componentName @ (case componentId of
                        None \<Rightarrow> []
                      | Some i \<Rightarrow> if i = [] then [] else ''_'' @ i)"

text \<open>\<^verbatim>\<open>getReactorMode(userMode, config)\<close>: an absent or empty \<open>userMode\<close> is falsy.\<close>

definition getReactorMode :: "string option \<Rightarrow> config \<Rightarrow> error + string" where
  "getReactorMode userMode cfg =
     (let mode = (case userMode of
                    None \<Rightarrow> defaultReactorMode cfg
                  | Some m \<Rightarrow> if m = [] then defaultReactorMode cfg else m)
      in if mode \<notin> set ReactorModes \<and> mode \<notin> set objectPrototypeKeys
         then Inl (FuseWireError ''Invalid ReactorMode'')
         else Inr mode)"

section \<open>Templates and the template cache\<close>

text \<open>
  A Template object.  \<^verbatim>\<open>Template.fromJSON\<close> of the empty object leaves every field
  undefined, so each field is optional.
\<close>

record template =
  t_component :: "string option"
  t_jsCode :: "string option"
  t_cssCode :: "string option"
  t_htmlCode :: "string option"
  t_version :: "string option"
  t_lastUpdated :: "nat option"

definition emptyTemplate :: template where
  "emptyTemplate = \<lparr> t_component = None, t_jsCode = None, t_cssCode = None,
                     t_htmlCode = None, t_version = None, t_lastUpdated = None \<rparr>"

text \<open>One item of the \<^verbatim>\<open>templates\<close> array of a server response.\<close>

record templateResponse =
  r_component :: string
  r_jsCode :: string
  r_cssCode :: string
  r_htmlCode :: string
  r_version :: "string option"

text \<open>The record the registry keeps for one live component.\<close>

record instRecord =
  i_lastUpdated :: nat
  i_instance :: vars
  i_component :: string
  i_id :: "string option"
  i_serverVarKeys :: "string list"
  i_runesKeys :: "string list"
  i_version :: "string option"

text \<open>The persisted snapshot \<^verbatim>\<open>{lastUpdated, vars}\<close> under \<^verbatim>\<open>fusewire_vars_<id>\<close>.\<close>

record snapshot =
  s_lastUpdated :: nat
  s_vars :: vars

text \<open>
  What the renderer collaborator and the after-render callback are asked to do:
  \<open>Render container componentId vars\<close> is a full render into a container,
  \<open>RenderRune componentId key value\<close> rewrites the slot bound to one variable, and
  \<open>AfterRender componentId target\<close> is the notification for a container or a slot.  A
  container is named by the id of its element.
\<close>

datatype target = Container string | Rune string string

datatype action =
    Render string string vars
  | RenderRune string string jsval
  | AfterRender string target

text \<open>
  A call \<^verbatim>\<open>update(componentId, newVars, newVersion)\<close> that nobody awaits and that is
  suspended in its loop: the keys still to assign, the old values collected so far, and the
  error that ended it, if any.  A call with no key left is over.
\<close>

record job =
  j_componentId :: string
  j_newVars :: "(string \<times> jsval) list"
  j_keys :: "string list"
  j_oldVars :: "(string \<times> jsval) list"
  j_error :: "error option"

text \<open>
  The state of an InstanceDao with its TemplateDao and the local storage behind them:
  \<open>instances\<close> is \<^verbatim>\<open>InstanceDao.instances\<close>, \<open>versions\<close> is \<^verbatim>\<open>TemplateDao.versions\<close>,
  \<open>setTimeOut\<close> tells whether the coalesced flush of the version index is scheduled, and
  \<open>db_template\<close>, \<open>db_versions\<close>, \<open>db_vars\<close> are the three key families of the local
  storage (\<^verbatim>\<open>fusewire_template_<name>\<close>, \<^verbatim>\<open>fusewire_template_versions\<close>,
  \<^verbatim>\<open>fusewire_vars_<id>\<close>), each holding the value its JSON text denotes.  \<open>templateFetches\<close>
  logs the probes sent by \<^verbatim>\<open>fetchTemplates\<close>, \<open>hookCalls\<close> the arguments given to the
  instances' \<^verbatim>\<open>update\<close> hook, \<open>rendered\<close> the rendering actions, \<open>clock\<close> is
  \<^verbatim>\<open>Date.now()\<close>, \<open>cfg\<close> the configuration and \<open>reactorId\<close> the id of the owning reactor.
  \<open>pendingUpdates\<close> are the updates of nested components that \<^verbatim>\<open>convertToComponentIfNeeded\<close>
  started without awaiting them, in the order they were started.

  \<open>instances\<close> holds the own properties of the registry object.  A record assigned under
  \<^verbatim>\<open>__proto__\<close> becomes the prototype of the registry object instead: it is read back under
  that key, and \<^verbatim>\<open>delete\<close> does not remove it.  Its fields then show through under their
  own names as well (\<^verbatim>\<open>instance\<close>, \<^verbatim>\<open>version\<close>, ...); reads of a componentId of such a name
  in a registry with a record under \<^verbatim>\<open>__proto__\<close> are not followed.  Names of variables are
  likewise taken to differ from the names every object inherits.
\<close>

record dao =
  instances :: "string \<rightharpoonup> instRecord"
  versions :: "string \<rightharpoonup> string option"
  setTimeOut :: bool
  db_template :: "string \<rightharpoonup> template"
  db_versions :: "string \<rightharpoonup> string option"
  db_vars :: "string \<rightharpoonup> snapshot"
  templateFetches :: "(string \<times> string option) list"
  hookCalls :: "(string \<times> vars) list"
  rendered :: "action list"
  clock :: nat
  cfg :: config
  reactorId :: string
  pendingUpdates :: "job list"

text \<open>
  The collaborators outside the core: the lifecycle hooks of the component classes
  (application code: each receives the own properties of the instance it is called on and
  may change them or throw), the dynamic loader behind \<^verbatim>\<open>createInstance\<close> (it yields
  the own properties of the fresh instance), the template endpoint behind
  \<^verbatim>\<open>fetchTemplates\<close>, and the DOM lookups and renderer calls, which may fail.
\<close>

record collab =
  hydrateHook :: "string \<Rightarrow> vars \<Rightarrow> error option \<times> vars"
  updateHook :: "string \<Rightarrow> vars \<Rightarrow> vars \<Rightarrow> error option \<times> vars"
  destroyHook :: "string \<Rightarrow> vars \<Rightarrow> error option"
  loader :: "template \<Rightarrow> error + vars"
  fetchTemplates :: "string \<times> string option \<Rightarrow> error + templateResponse list"
  getElementById :: "string \<Rightarrow> string option"
  getSubComponent :: "string \<Rightarrow> string \<Rightarrow> string option"
  getRune :: "string \<Rightarrow> string \<Rightarrow> bool"
  rendererFails :: "action \<Rightarrow> error option"

subsection \<open>Rune bindings in markup\<close>

text \<open>
  The character classes \<^verbatim>\<open>\s\<close> and \<^verbatim>\<open>\w\<close> of the regular expressions, on ASCII text.
\<close>

definition isSpace :: "char \<Rightarrow> bool" where
  "isSpace c = (c \<in> set [CHR '' '', CHR 0x09, CHR 0x0A, CHR 0x0B, CHR 0x0C, CHR 0x0D])"

definition isWord :: "char \<Rightarrow> bool" where
  "isWord c =
     (let n = (of_char c :: nat)
      in (48 \<le> n \<and> n \<le> 57) \<or> (65 \<le> n \<and> n \<le> 90) \<or> n = 95 \<or> (97 \<le> n \<and> n \<le> 122))"

text \<open>
  A match of \<^verbatim>\<open>\(\(\s*\$(\w+)\s*\)\)\<close> at the start of the text: the captured name and
  the text after the match.  The classes that follow one another are disjoint, so the greedy
  match is the only one.
\<close>

definition matchRune :: "string \<Rightarrow> (string \<times> string) option" where
  "matchRune s =
     (if take 2 s = ''(('' then
        (case dropWhile isSpace (drop 2 s) of
           [] \<Rightarrow> None
         | c # s2 \<Rightarrow>
             if c = CHR ''$'' then
               (let w = takeWhile isWord s2;
                    s3 = dropWhile isSpace (dropWhile isWord s2)
                in if w \<noteq> [] \<and> take 2 s3 = ''))'' then Some (w, drop 2 s3) else None)
             else None)
      else None)"

lemma matchRune_shorter: "matchRune s = Some (w, rest) \<Longrightarrow> length rest < length s"
proof -
  assume m: "matchRune s = Some (w, rest)"
  then have p: "take 2 s = ''((''"
    by (auto simp: matchRune_def split: if_splits)
  from m p obtain c s2 where d: "dropWhile isSpace (drop 2 s) = c # s2"
    and r: "rest = drop 2 (dropWhile isSpace (dropWhile isWord s2))"
    by (auto simp: matchRune_def Let_def split: if_splits list.splits)
  have "length rest \<le> length s2"
    unfolding r
    using length_dropWhile_le [of isSpace "dropWhile isWord s2"] length_dropWhile_le [of isWord s2]
    by simp
  also have "length s2 < length (dropWhile isSpace (drop 2 s))"
    by (simp add: d)
  also have "\<dots> \<le> length s"
    using length_dropWhile_le [of isSpace "drop 2 s"] by simp
  finally show ?thesis .
qed

text \<open>
  \<^verbatim>\<open>fixRunes(htmlCode)\<close>: every \<^verbatim>\<open>(( $name ))\<close> becomes \<^verbatim>\<open>(({$name}))\<close>, scanning
  from the left without overlap.
\<close>

function fixRunes :: "string \<Rightarrow> string" where
  "fixRunes [] = []"
| "fixRunes (c # cs) =
     (case matchRune (c # cs) of
        Some (w, rest) \<Rightarrow> ''(({$'' @ w @ ''}))'' @ fixRunes rest
      | None \<Rightarrow> c # fixRunes cs)"
  by pat_completeness auto
termination
  by (relation "measure length") (auto dest: matchRune_shorter)

text \<open>
  The test of \<^verbatim>\<open>create\<close> for a rune: the markup matches the open tag and a brace, any
  white space, \<^verbatim>\<open>$key\<close> and a word boundary (all but the white space literally, the
  source escapes them).
\<close>

definition wordBoundary :: "char \<Rightarrow> string \<Rightarrow> bool" where
  "wordBoundary prev rest =
     (isWord prev \<noteq> (case rest of [] \<Rightarrow> False | c # _ \<Rightarrow> isWord c))"

definition runeAt :: "string \<Rightarrow> string \<Rightarrow> string \<Rightarrow> bool" where
  "runeAt openTag key s =
     (let p = openTag @ ''{''; q = CHR ''$'' # key
      in take (length p) s = p \<and>
         (let s1 = dropWhile isSpace (drop (length p) s)
          in take (length q) s1 = q \<and> wordBoundary (last q) (drop (length q) s1)))"

primrec tails :: "string \<Rightarrow> string list" where
  "tails [] = [[]]"
| "tails (c # cs) = (c # cs) # tails cs"

definition hasRune :: "string \<Rightarrow> string \<Rightarrow> string \<Rightarrow> bool" where
  "hasRune openTag key html = list_ex (runeAt openTag key) (tails html)"

subsection \<open>TemplateDao\<close>

text \<open>\<^verbatim>\<open>TemplateDao.getVersion(name)\<close>: the stored template's version, or the empty string.\<close>

definition templateGetVersion :: "dao \<Rightarrow> string \<Rightarrow> string" where
  "templateGetVersion st name =
     (case db_template st name of
        None \<Rightarrow> []
      | Some t \<Rightarrow> (case t_version t of None \<Rightarrow> [] | Some v \<Rightarrow> v))"

text \<open>
  \<^verbatim>\<open>setFromTemplateResponse\<close>: persists the template under the component name of the
  response, updates the version index in memory and schedules its flush unless one is
  pending.  \<open>flushVersions\<close> is the scheduled callback.
\<close>

definition setFromTemplateResponse :: "templateResponse \<Rightarrow> dao \<Rightarrow> template \<times> dao" where
  "setFromTemplateResponse resp st =
     (let t = \<lparr> t_component = Some (r_component resp), t_jsCode = Some (r_jsCode resp),
                t_cssCode = Some (r_cssCode resp), t_htmlCode = Some (fixRunes (r_htmlCode resp)),
                t_version = r_version resp, t_lastUpdated = Some (clock st) \<rparr>
      in (t, st\<lparr> db_template := (db_template st)(r_component resp \<mapsto> t),
                   versions := (versions st)(r_component resp \<mapsto> t_version t),
                   setTimeOut := True \<rparr>))"

definition flushVersions :: "dao \<Rightarrow> dao" where
  "flushVersions st = st\<lparr> db_versions := versions st, setTimeOut := False \<rparr>"

text \<open>The template read back from local storage; nothing stored reads as the empty object.\<close>

definition storedTemplate :: "dao \<Rightarrow> string \<Rightarrow> template" where
  "storedTemplate st name = (case db_template st name of None \<Rightarrow> emptyTemplate | Some t \<Rightarrow> t)"

text \<open>
  \<^verbatim>\<open>getOrFetch(name, version, mode)\<close>; \<open>ver = None\<close> is a call without a version.
  The call has two halves around its one \<^verbatim>\<open>await\<close>.  \<open>getOrFetchBegin\<close> runs up to
  it: when the version index agrees with the requested version, the stored template is the
  result (\<open>Inl\<close>) if its own version is truthy and equal to it, and otherwise the probe's
  version is reset to the empty string; a probe that is sent is logged and returned with the
  stored template (\<open>Inr\<close>).  \<open>getOrFetchEnd\<close> runs when the answer is there.  The source
  hands \<^verbatim>\<open>fetchTemplates\<close> the mode \<^verbatim>\<open>''\<close> whatever \<open>mode\<close> is.  \<open>getOrFetch\<close> is the
  whole call, answered by the template endpoint at once.
\<close>

definition getOrFetchBegin ::
  "string \<Rightarrow> string option \<Rightarrow> dao \<Rightarrow> (template + (string \<times> string option) \<times> template) \<times> dao" where
  "getOrFetchBegin name ver st =
     (let stored = storedTemplate st name;
          agrees = (ver \<noteq> None \<and> versions st name \<noteq> None \<and> Some ver = versions st name)
      in if agrees \<and> t_version stored \<noteq> None \<and> t_version stored \<noteq> Some [] \<and>
            t_version stored = ver
         then (Inl stored, st)
         else
           (let probe = (name, if agrees then Some [] else ver)
            in (Inr (probe, stored), st\<lparr> templateFetches := templateFetches st @ [probe] \<rparr>)))"

definition getOrFetchEnd ::
  "template \<Rightarrow> error + templateResponse list \<Rightarrow> dao \<Rightarrow> (error + template) \<times> dao" where
  "getOrFetchEnd stored answer st =
     (case answer of
        Inl e \<Rightarrow> (Inl e, st)
      | Inr [] \<Rightarrow> (Inr stored, st)
      | Inr (resp # _) \<Rightarrow> (let (t, st') = setFromTemplateResponse resp st in (Inr t, st')))"

definition getOrFetch ::
  "collab \<Rightarrow> string \<Rightarrow> string option \<Rightarrow> string option \<Rightarrow> dao \<Rightarrow> (error + template) \<times> dao" where
  "getOrFetch co name ver mode st =
     (case getOrFetchBegin name ver st of
        (Inl stored, st') \<Rightarrow> (Inr stored, st')
      | (Inr (probe, stored), st') \<Rightarrow> getOrFetchEnd stored (fetchTemplates co probe) st')"

text \<open>\<^verbatim>\<open>TemplateDao.get(name)\<close>: the cache only.\<close>

definition template_get :: "dao \<Rightarrow> string \<Rightarrow> error + template" where
  "template_get st name =
     (case db_template st name of
        None \<Rightarrow> Inl (FuseWireTemplateNotFound name)
      | Some t \<Rightarrow> Inr t)"

section \<open>The instance registry\<close>

text \<open>
  The readers of the registry.  \<^verbatim>\<open>exists\<close>, \<^verbatim>\<open>getInstance\<close> and
  \<^verbatim>\<open>getComponentNameAndId\<close> test \<^verbatim>\<open>typeof(this.instances[id]) === 'undefined'\<close> and then
  the property \<^verbatim>\<open>instance\<close> of what they found, which an inherited value does not have;
  \<^verbatim>\<open>getServerVarsKeys\<close> and \<^verbatim>\<open>getRuneKeys\<close> make the first test only, so for an
  inherited value they return its undefined property (\<open>Inr None\<close>).
\<close>

definition exists :: "dao \<Rightarrow> string \<Rightarrow> bool" where
  "exists st i = (case readKey (instances st) i of Own r \<Rightarrow> True | Inherited \<Rightarrow> False | Undefined \<Rightarrow> False)"

definition getInstance :: "dao \<Rightarrow> string \<Rightarrow> error + vars" where
  "getInstance st i =
     (case readKey (instances st) i of
        Own r \<Rightarrow> Inr (i_instance r)
      | Inherited \<Rightarrow> Inl (FuseWireComponentNotFound i)
      | Undefined \<Rightarrow> Inl (FuseWireComponentNotFound i))"

definition getComponentNameAndId :: "dao \<Rightarrow> string \<Rightarrow> error + string \<times> string option" where
  "getComponentNameAndId st i =
     (case readKey (instances st) i of
        Own r \<Rightarrow> Inr (i_component r, i_id r)
      | Inherited \<Rightarrow> Inl (FuseWireComponentNotFound i)
      | Undefined \<Rightarrow> Inl (FuseWireComponentNotFound i))"

definition getServerVarsKeys :: "dao \<Rightarrow> string \<Rightarrow> error + string list option" where
  "getServerVarsKeys st i =
     (case readKey (instances st) i of
        Own r \<Rightarrow> Inr (Some (i_serverVarKeys r))
      | Inherited \<Rightarrow> Inr None
      | Undefined \<Rightarrow> Inl (FuseWireComponentNotFound i))"

definition getRuneKeys :: "dao \<Rightarrow> string \<Rightarrow> error + string list option" where
  "getRuneKeys st i =
     (case readKey (instances st) i of
        Own r \<Rightarrow> Inr (Some (i_runesKeys r))
      | Inherited \<Rightarrow> Inr None
      | Undefined \<Rightarrow> Inl (FuseWireComponentNotFound i))"

text \<open>\<^verbatim>\<open>extractVars(id)\<close>: \<^verbatim>\<open>getInstance\<close> first, then the server-owned keys in order.\<close>

definition extractVars :: "dao \<Rightarrow> string \<Rightarrow> error + vars" where
  "extractVars st i =
     (case readKey (instances st) i of
        Own r \<Rightarrow> Inr (map (\<lambda>key. (key, getProp (i_instance r) key)) (i_serverVarKeys r))
      | Inherited \<Rightarrow> Inl (FuseWireComponentNotFound i)
      | Undefined \<Rightarrow> Inl (FuseWireComponentNotFound i))"

text \<open>
  \<^verbatim>\<open>InstanceDao.getVersion(component, id)\<close>.  The source computes the componentId and
  then reads the registry under the bare component name; what it finds there need not be a
  record, and an inherited value has no version (\<open>None\<close> is \<^verbatim>\<open>undefined\<close>).
\<close>

definition getVersion :: "dao \<Rightarrow> string \<Rightarrow> string option \<Rightarrow> string option" where
  "getVersion st cname i =
     (let componentId = getComponentId cname i
      in case readKey (instances st) cname of
           Own r \<Rightarrow> i_version r
         | Inherited \<Rightarrow> None
         | Undefined \<Rightarrow> Some (templateGetVersion st cname))"

text \<open>
  \<^verbatim>\<open>InstanceDao.remove(id)\<close>: the result is the error that escapes, if any.  The early
  return is taken when nothing is found under the id.  The \<^verbatim>\<open>finally\<close> block deletes the
  own property after the teardown hook, whether it threw or not.  An inherited value has no
  \<^verbatim>\<open>instance\<close>, so calling \<^verbatim>\<open>destroy\<close> on it is a TypeError, and there is no own
  property to delete.
\<close>

definition remove_instance :: "collab \<Rightarrow> string \<Rightarrow> dao \<Rightarrow> error option \<times> dao" where
  "remove_instance co i st =
     (case readKey (instances st) i of
        Undefined \<Rightarrow> (None, st)
      | Inherited \<Rightarrow> (Some (TypeError ''destroy''), st)
      | Own r \<Rightarrow>
          (destroyHook co i (i_instance r),
           st\<lparr> instances := (if i = ''__proto__'' then instances st
                               else (instances st)(i := None)) \<rparr>))"

subsection \<open>Decoding: create, update and convertToComponentIfNeeded\<close>

text \<open>
  The instance object of a component lives in its registry record.  \<open>instanceOf\<close> reads its
  own properties and \<open>setInstanceProp\<close> assigns one.
\<close>

definition instanceOf :: "dao \<Rightarrow> string \<Rightarrow> vars" where
  "instanceOf st i = (case instances st i of None \<Rightarrow> [] | Some r \<Rightarrow> i_instance r)"

definition setInstance :: "string \<Rightarrow> vars \<Rightarrow> dao \<Rightarrow> dao" where
  "setInstance i inst st =
     (case instances st i of
        None \<Rightarrow> st
      | Some r \<Rightarrow> st\<lparr> instances := (instances st)(i \<mapsto> r\<lparr> i_instance := inst \<rparr>) \<rparr>)"

definition setInstanceProp :: "string \<Rightarrow> string \<Rightarrow> jsval \<Rightarrow> dao \<Rightarrow> dao" where
  "setInstanceProp i key v st = setInstance i (setProp (instanceOf st i) key v) st"

text \<open>
  \<^verbatim>\<open>createInstance\<close>: rendering the code of a template without code fails, the loader
  imports and instantiates, and a template without a component name fails at
  \<^verbatim>\<open>name.split\<close> once the import went through.
\<close>

definition createInstance :: "collab \<Rightarrow> template \<Rightarrow> error + vars" where
  "createInstance co t =
     (case t_jsCode t of
        None \<Rightarrow> Inl (FuseWireError ''Error rendering JS component'')
      | Some js \<Rightarrow>
          (case t_component t of
             None \<Rightarrow> (case loader co t of Inl e \<Rightarrow> Inl e | Inr inst \<Rightarrow> Inl (TypeError ''split''))
           | Some name \<Rightarrow> loader co t))"

text \<open>String concatenation turns an undefined component name into \<^verbatim>\<open>undefined\<close>.\<close>

definition templateComponent :: "template \<Rightarrow> string" where
  "templateComponent t = (case t_component t of None \<Rightarrow> ''undefined'' | Some name \<Rightarrow> name)"

text \<open>The rune scan of \<^verbatim>\<open>create\<close>; \<^verbatim>\<open>match\<close> on undefined markup is a TypeError.\<close>

definition findRunes :: "config \<Rightarrow> template \<Rightarrow> string list \<Rightarrow> error + string list" where
  "findRunes c t keys =
     (if keys = [] then Inr []
      else case t_htmlCode t of
             None \<Rightarrow> Inl (TypeError ''match'')
           | Some html \<Rightarrow> Inr (filter (\<lambda>key. hasRune (fst (fusewireTags c)) key html) keys))"

lemma getProp_size:
  "size (getProp vs key) < Suc (size_list (\<lambda>p. size (snd p)) vs)"
  by (induction vs) (auto simp: getProp_def)

text \<open>
  The call of the instance's update hook at the end of \<^verbatim>\<open>update\<close>, logged in \<open>hookCalls\<close>.
\<close>

definition callUpdateHook :: "collab \<Rightarrow> string \<Rightarrow> vars \<Rightarrow> dao \<Rightarrow> error option \<times> dao" where
  "callUpdateHook co componentId oldVars st =
     (let st1 = st\<lparr> hookCalls := hookCalls st @ [(componentId, oldVars)] \<rparr>;
          (err, inst') = updateHook co componentId oldVars (instanceOf st1 componentId)
      in (err, setInstance componentId inst' st1))"

text \<open>
  For a component that exists, \<^verbatim>\<open>convertToComponentIfNeeded\<close> calls \<^verbatim>\<open>update\<close> and does
  not await it.  \<open>updateBegin\<close> is what that call does before it is suspended: it assigns
  the version; with no server-owned key it runs to its end at once (its error is seen by
  nobody); otherwise it is left in \<open>pendingUpdates\<close>, to go on while its caller goes on.
\<close>

definition updateBegin :: "collab \<Rightarrow> string \<Rightarrow> vars \<Rightarrow> string option \<Rightarrow> dao \<Rightarrow> dao" where
  "updateBegin co componentId newVars newVersion st =
     (case instances st componentId of
        None \<Rightarrow> st
      | Some r \<Rightarrow>
          (let st1 = st\<lparr> instances := (instances st)(componentId \<mapsto> r\<lparr> i_version := newVersion \<rparr>) \<rparr>
           in if i_serverVarKeys r = []
              then snd (callUpdateHook co componentId [] st1)
              else st1\<lparr> pendingUpdates := pendingUpdates st1 @
                         [\<lparr> j_componentId = componentId, j_newVars = newVars,
                            j_keys = i_serverVarKeys r, j_oldVars = [], j_error = None \<rparr>] \<rparr>))"

text \<open>
  \<^verbatim>\<open>convertToComponentIfNeeded\<close> and \<^verbatim>\<open>create\<close> with its hydrating loop \<open>hydrateVars\<close>,
  as one sequential flow: every \<^verbatim>\<open>await\<close> of \<^verbatim>\<open>create\<close> is taken at once.  A state
  change made before an error stays.  \<^verbatim>\<open>typeof null\<close> is \<^verbatim>\<open>'object'\<close>, so reading
  \<^verbatim>\<open>null['fusewire-type']\<close> is a TypeError.
\<close>

function (sequential) convertToComponentIfNeeded :: "collab \<Rightarrow> jsval \<Rightarrow> dao \<Rightarrow> (error + jsval) \<times> dao"
and create ::
  "collab \<Rightarrow> template \<Rightarrow> vars \<Rightarrow> string option \<Rightarrow> string option \<Rightarrow> dao \<Rightarrow> (error + jsval) \<times> dao"
and hydrateVars ::
  "collab \<Rightarrow> string \<Rightarrow> vars \<Rightarrow> string list \<Rightarrow> vars \<Rightarrow> dao \<Rightarrow> (error + vars) \<times> dao"
where
  "convertToComponentIfNeeded co (JEnv m cname i vs ver) st =
     (let componentId = getComponentId cname i
      in if exists st componentId
         then (Inr (JComp componentId), updateBegin co componentId vs ver st)
         else (case getOrFetch co cname None None st of
                 (Inl e, st1) \<Rightarrow> (Inl e, st1)
               | (Inr t, st1) \<Rightarrow> create co t vs i ver st1))"
| "convertToComponentIfNeeded co JNull st = (Inl (TypeError ''fusewire-type''), st)"
| "convertToComponentIfNeeded co v st = (Inr v, st)"
| "create co t vs i ver st =
     (let cname = templateComponent t;
          componentId = getComponentId cname i;
          keys = map fst vs
      in case createInstance co t of
           Inl e \<Rightarrow> (Inl e, st)
         | Inr inst0 \<Rightarrow>
             (case findRunes (cfg st) t keys of
                Inl e \<Rightarrow> (Inl e, st)
              | Inr runes \<Rightarrow>
                  (case hydrateVars co cname vs keys inst0 st of
                     (Inl e, st1) \<Rightarrow> (Inl e, st1)
                   | (Inr inst, st1) \<Rightarrow>
                       (let st2 = st1\<lparr> instances := (instances st1)(componentId \<mapsto>
                                   \<lparr> i_lastUpdated = clock st1, i_instance = inst,
                                     i_component = cname, i_id = i, i_serverVarKeys = keys,
                                     i_runesKeys = runes, i_version = ver \<rparr>) \<rparr>;
                            (err, inst') = hydrateHook co componentId inst;
                            st3 = setInstance componentId inst' st2
                        in case err of
                             Some e \<Rightarrow> (Inl e, st3)
                           | None \<Rightarrow> (Inr (JComp componentId), st3)))))"
| "hydrateVars co cname vs [] inst st = (Inr inst, st)"
| "hydrateVars co cname vs (key # keys) inst st =
     (if getProp vs key = JUndefined
      then (Inl (FuseWireError (''missingComponentKeyInServerResponse: '' @ cname @ ''.'' @ key)), st)
      else (case convertToComponentIfNeeded co (getProp vs key) st of
              (Inl e, st1) \<Rightarrow> (Inl e, st1)
            | (Inr v, st1) \<Rightarrow> hydrateVars co cname vs keys (setProp inst key v) st1))"
  by pat_completeness auto

termination
proof (relation "measures
    [case_sum (\<lambda>(co, v, st). Suc (size v))
              (case_sum (\<lambda>(co, t, vs, i, ver, st). Suc (size_list (\<lambda>p. size (snd p)) vs))
                        (\<lambda>(co, cname, vs, keys, inst, st). Suc (size_list (\<lambda>p. size (snd p)) vs))),
     case_sum (\<lambda>x. 0)
              (case_sum (\<lambda>x. 2) (\<lambda>(co, cname, vs, keys, inst, st). Suc 0)),
     case_sum (\<lambda>x. 0)
              (case_sum (\<lambda>x. 0) (\<lambda>(co, cname, vs, keys, inst, st). length keys))]",
    goal_cases)
  case 1
  show ?case by simp
next
  case (2 co m cname i vs ver st x xa y)
  have "size_list (\<lambda>p. size (snd p)) vs \<le> size_list (size_prod (\<lambda>x. 0) size) vs"
    by (induction vs) auto
  then show ?case by simp
next
  case 3
  then show ?case by simp
next
  case (4 co cname vs key keys inst st)
  show ?case using getProp_size [of vs key] by auto
next
  case 5
  then show ?case by simp
qed

text \<open>
  \<^verbatim>\<open>update(componentId, newVars, newVersion)\<close> awaited by its caller, as one sequential
  flow; \<open>updateVars\<close> is its loop.  A key missing from \<open>newVars\<close> is filled in with null,
  which the conversion then rejects.
\<close>

fun updateVars ::
  "collab \<Rightarrow> string \<Rightarrow> vars \<Rightarrow> string list \<Rightarrow> vars \<Rightarrow> dao \<Rightarrow> (error + vars) \<times> dao" where
  "updateVars co componentId newVars [] oldVars st = (Inr oldVars, st)"
| "updateVars co componentId newVars (key # keys) oldVars st =
     (let oldVars' = setProp oldVars key (getProp (instanceOf st componentId) key);
          v = (if getProp newVars key = JUndefined then JNull else getProp newVars key)
      in case convertToComponentIfNeeded co v st of
           (Inl e, st1) \<Rightarrow> (Inl e, st1)
         | (Inr w, st1) \<Rightarrow>
             updateVars co componentId newVars keys oldVars' (setInstanceProp componentId key w st1))"

definition update :: "collab \<Rightarrow> string \<Rightarrow> vars \<Rightarrow> string option \<Rightarrow> dao \<Rightarrow> error option \<times> dao" where
  "update co componentId newVars newVersion st =
     (case instances st componentId of
        None \<Rightarrow> (Some (FuseWireComponentNotFound componentId), st)
      | Some r \<Rightarrow>
          (let st1 = st\<lparr> instances := (instances st)(componentId \<mapsto> r\<lparr> i_version := newVersion \<rparr>) \<rparr>
           in case updateVars co componentId newVars (i_serverVarKeys r) [] st1 of
                (Inl e, st2) \<Rightarrow> (Some e, st2)
              | (Inr oldVars, st2) \<Rightarrow> callUpdateHook co componentId oldVars st2))"

text \<open>
  One step of a suspended update: the next key is assigned (the old value is kept, the new
  value converted), and after the last key the update hook is called.  An error ends the
  update; nobody sees it.  The part the source runs before the first \<^verbatim>\<open>await\<close> of the loop
  (reading the old value of the first key and starting its conversion) is counted with the
  first step.
\<close>

definition updateStep :: "collab \<Rightarrow> nat \<Rightarrow> dao \<Rightarrow> dao option" where
  "updateStep co k st =
     (if k < length (pendingUpdates st)
      then (let j = pendingUpdates st ! k
            in case j_keys j of
                 [] \<Rightarrow> None
               | key # keys \<Rightarrow>
                   (let oldVars' = setProp (j_oldVars j) key
                                     (getProp (instanceOf st (j_componentId j)) key);
                        v = (if getProp (j_newVars j) key = JUndefined then JNull
                             else getProp (j_newVars j) key)
                    in case convertToComponentIfNeeded co v st of
                         (Inl e, st1) \<Rightarrow>
                           Some (st1\<lparr> pendingUpdates := (pendingUpdates st1)
                                   [k := j\<lparr> j_keys := [], j_oldVars := oldVars', j_error := Some e \<rparr>] \<rparr>)
                       | (Inr w, st1) \<Rightarrow>
                           (let st2 = setInstanceProp (j_componentId j) key w st1
                            in if keys = []
                               then (let (err, st3) = callUpdateHook co (j_componentId j) oldVars' st2
                                     in Some (st3\<lparr> pendingUpdates := (pendingUpdates st3)
                                                [k := j\<lparr> j_keys := [], j_oldVars := oldVars',
                                                        j_error := err \<rparr>] \<rparr>))
                               else Some (st2\<lparr> pendingUpdates := (pendingUpdates st2)
                                            [k := j\<lparr> j_keys := keys, j_oldVars := oldVars' \<rparr>] \<rparr>))))
      else None)"

subsection \<open>Encoding\<close>

text \<open>
  \<^verbatim>\<open>encodeVars(vars, mode)\<close>.  The first argument bounds the depth of the recursion
  through nested instances, as the call stack does: at depth zero a further nested call is
  a RangeError.  The recursive call of the source passes no mode.
\<close>

fun encodeVars :: "nat \<Rightarrow> dao \<Rightarrow> vars \<Rightarrow> string option \<Rightarrow> error + vars" where
  "encodeVars n st [] mode = Inr []"
| "encodeVars n st ((key, JComp componentId) # rest) mode =
     (case getComponentNameAndId st componentId of
        Inl e \<Rightarrow> Inl e
      | Inr (name, i) \<Rightarrow>
          (case extractVars st componentId of
             Inl e \<Rightarrow> Inl e
           | Inr vs \<Rightarrow>
               (case n of
                  0 \<Rightarrow> Inl RangeError
                | Suc k \<Rightarrow>
                    (case encodeVars k st vs None of
                       Inl e \<Rightarrow> Inl e
                     | Inr enc \<Rightarrow>
                         (case encodeVars n st rest mode of
                            Inl e \<Rightarrow> Inl e
                          | Inr encRest \<Rightarrow> Inr ((key, JEnv mode name i enc None) # encRest))))))"
| "encodeVars n st ((key, v) # rest) mode =
     (case encodeVars n st rest mode of
        Inl e \<Rightarrow> Inl e
      | Inr encRest \<Rightarrow> Inr ((key, v) # encRest))"

subsection \<open>Snapshots and the diff\<close>

text \<open>
  \<^verbatim>\<open>JSON.stringify\<close>, up to the identification of a JSON text with the value it denotes:
  \<open>Inr None\<close> is the result \<^verbatim>\<open>undefined\<close>, an undefined field of an object is left out,
  an undefined element of an array becomes null.  A Component instance holds its reactor, which
  holds the instance again, so serializing it is a TypeError.
\<close>

fun stringify :: "jsval \<Rightarrow> error + jsval option"
and stringifyFields :: "(string \<times> jsval) list \<Rightarrow> error + (string \<times> jsval) list"
and stringifyElems :: "jsval list \<Rightarrow> error + jsval list"
where
  "stringify JUndefined = Inr None"
| "stringify (JArr xs) = (case stringifyElems xs of Inl e \<Rightarrow> Inl e | Inr ys \<Rightarrow> Inr (Some (JArr ys)))"
| "stringify (JObj kvs) = (case stringifyFields kvs of Inl e \<Rightarrow> Inl e | Inr fs \<Rightarrow> Inr (Some (JObj fs)))"
| "stringify (JEnv m cname i vs ver) =
     (case stringifyFields vs of Inl e \<Rightarrow> Inl e | Inr fs \<Rightarrow> Inr (Some (JEnv m cname i fs ver)))"
| "stringify (JComp componentId) = Inl (TypeError ''circular structure'')"
| "stringify (JHolder componentId) = Inr (Some (JObj [(''componentId'', JStr componentId)]))"
| "stringify v = Inr (Some v)"
| "stringifyFields [] = Inr []"
| "stringifyFields ((k, v) # kvs) =
     (case stringify v of
        Inl e \<Rightarrow> Inl e
      | Inr r \<Rightarrow>
          (case stringifyFields kvs of
             Inl e \<Rightarrow> Inl e
           | Inr fs \<Rightarrow> Inr (case r of None \<Rightarrow> fs | Some w \<Rightarrow> (k, w) # fs)))"
| "stringifyElems [] = Inr []"
| "stringifyElems (x # xs) =
     (case stringify x of
        Inl e \<Rightarrow> Inl e
      | Inr r \<Rightarrow>
          (case stringifyElems xs of
             Inl e \<Rightarrow> Inl e
           | Inr ys \<Rightarrow> Inr ((case r of None \<Rightarrow> JNull | Some w \<Rightarrow> w) # ys)))"

text \<open>
  \<^verbatim>\<open>calculateChangedVars(jsonParser, oldVars, newVars)\<close>: the keys of \<open>newVars\<close> whose value
  is new or differs, booleans, numbers and strings by \<^verbatim>\<open>!==\<close>, everything else by its
  serialized form.
\<close>

fun isPrimitive :: "jsval \<Rightarrow> bool" where
  "isPrimitive (JBool b) = True"
| "isPrimitive (JNum n) = True"
| "isPrimitive (JStr s) = True"
| "isPrimitive v = False"

definition varChanged :: "(jsval \<Rightarrow> 's) \<Rightarrow> vars \<Rightarrow> vars \<Rightarrow> string \<Rightarrow> bool" where
  "varChanged jsonStringify oldVars newVars key =
     (if getProp oldVars key = JUndefined then True
      else if isPrimitive (getProp newVars key) then getProp newVars key \<noteq> getProp oldVars key
      else jsonStringify (getProp newVars key) \<noteq> jsonStringify (getProp oldVars key))"

definition calculateChangedVars :: "(jsval \<Rightarrow> 's) \<Rightarrow> vars \<Rightarrow> vars \<Rightarrow> string list" where
  "calculateChangedVars jsonStringify oldVars newVars =
     filter (varChanged jsonStringify oldVars newVars) (map fst newVars)"

text \<open>
  Variables whose names differ from the names every object inherits, through the nested
  component references.
\<close>

fun plainNames :: "jsval \<Rightarrow> bool"
and plainFields :: "(string \<times> jsval) list \<Rightarrow> bool"
where
  "plainNames (JEnv m cname i vs ver) = plainFields vs"
| "plainNames v = True"
| "plainFields [] = True"
| "plainFields ((key, v) # kvs) =
     (key \<notin> set objectPrototypeKeys \<and> plainNames v \<and> plainFields kvs)"

subsection \<open>Rendering\<close>

definition addClientVars :: "string \<Rightarrow> vars \<Rightarrow> string \<Rightarrow> vars" where
  "addClientVars componentId vs rid =
     setProp (setProp vs ''this''
                (JStr (''FuseWire.instances.'' @ rid @ ''.getInstance(\"'' @ componentId @ ''\")'')))
             ''fuseWireComponentId'' (JStr componentId)"

text \<open>The nested instances among the variables, and the variables with place holders for them.\<close>

fun subComponentsOf :: "vars \<Rightarrow> string list" where
  "subComponentsOf [] = []"
| "subComponentsOf ((key, JComp componentId) # rest) = componentId # subComponentsOf rest"
| "subComponentsOf ((key, v) # rest) = subComponentsOf rest"

fun withPlaceHolders :: "vars \<Rightarrow> vars" where
  "withPlaceHolders [] = []"
| "withPlaceHolders ((key, JComp componentId) # rest) = (key, JHolder componentId) # withPlaceHolders rest"
| "withPlaceHolders ((key, v) # rest) = (key, v) # withPlaceHolders rest"

fun isPlaceHolder :: "jsval \<Rightarrow> bool" where
  "isPlaceHolder (JHolder componentId) = True"
| "isPlaceHolder v = False"

text \<open>One call of the renderer or of the after-render callback: logged, then it may throw.\<close>

definition perform :: "collab \<Rightarrow> action \<Rightarrow> dao \<Rightarrow> error option \<times> dao" where
  "perform co a st = (rendererFails co a, st\<lparr> rendered := rendered st @ [a] \<rparr>)"

text \<open>The patch loop of \<^verbatim>\<open>render\<close> over the changed keys.\<close>

fun renderRunes :: "collab \<Rightarrow> string \<Rightarrow> vars \<Rightarrow> string list \<Rightarrow> dao \<Rightarrow> error option \<times> dao" where
  "renderRunes co componentId vs [] st = (None, st)"
| "renderRunes co componentId vs (key # keys) st =
     (if isPlaceHolder (getProp vs key) then renderRunes co componentId vs keys st
      else if \<not> getRune co componentId key then (Some (TypeError ''replaceHtmlContent''), st)
      else (case perform co (RenderRune componentId key (getProp vs key)) st of
              (Some e, st1) \<Rightarrow> (Some e, st1)
            | (None, st1) \<Rightarrow>
                (case perform co (AfterRender componentId (Rune componentId key)) st1 of
                   (Some e, st2) \<Rightarrow> (Some e, st2)
                 | (None, st2) \<Rightarrow> renderRunes co componentId vs keys st2)))"

text \<open>
  The choice of \<^verbatim>\<open>render\<close>:
  \<^verbatim>\<open>isNew || !changedVarsKeys.every(key => runeKeys.includes(key))\<close>.  With undefined
  \<open>runeKeys\<close> the first changed key is a TypeError.
\<close>

definition isFullRender :: "bool \<Rightarrow> string list option \<Rightarrow> string list \<Rightarrow> error + bool" where
  "isFullRender isNew runeKeys changedVarsKeys =
     (if isNew then Inr True
      else case runeKeys of
             Some keys \<Rightarrow> Inr (\<not> list_all (\<lambda>key. key \<in> set keys) changedVarsKeys)
           | None \<Rightarrow> if changedVarsKeys = [] then Inr False else Inl (TypeError ''includes''))"

text \<open>The two strategies of \<^verbatim>\<open>render\<close>: the full render, or the patch of the changed runes.\<close>

definition renderOrPatch ::
  "collab \<Rightarrow> bool \<Rightarrow> string \<Rightarrow> string \<Rightarrow> vars \<Rightarrow> string list \<Rightarrow> dao \<Rightarrow> error option \<times> dao" where
  "renderOrPatch co fullRender container componentId vs changedVarsKeys st =
     (if fullRender
      then perform co (Render container componentId
                         (addClientVars componentId vs (reactorId st))) st
      else renderRunes co componentId vs changedVarsKeys st)"

text \<open>
  \<^verbatim>\<open>render(container, componentId, isNew, template)\<close>; \<open>renderSubs\<close> is its loop over the
  nested components.  The first argument bounds the depth of the recursion, as for
  \<open>encodeVars\<close>.  The new snapshot is stored before the strategy is chosen.
\<close>

fun render ::
  "nat \<Rightarrow> collab \<Rightarrow> string option \<Rightarrow> string \<Rightarrow> bool \<Rightarrow> template \<Rightarrow> dao \<Rightarrow> error option \<times> dao"
and renderSubs ::
  "nat \<Rightarrow> collab \<Rightarrow> string \<Rightarrow> bool \<Rightarrow> string list \<Rightarrow> dao \<Rightarrow> error option \<times> dao"
where
  "render n co None componentId isNew t st =
     (Some (FuseWireError (''containerNotInDom: trying to render \"'' @ componentId @ ''\"'')), st)"
| "render n co (Some container) componentId isNew t st =
     (case extractVars st componentId of
        Inl e \<Rightarrow> (Some e, st)
      | Inr vs \<Rightarrow>
          (let oldVars = (case db_vars st componentId of None \<Rightarrow> [] | Some sn \<Rightarrow> s_vars sn)
           in case encodeVars n st vs None of
                Inl e \<Rightarrow> (Some e, st)
              | Inr newVars \<Rightarrow>
                  (case stringifyFields newVars of
                     Inl e \<Rightarrow> (Some e, st)
                   | Inr stored \<Rightarrow>
                       (let st1 = st\<lparr> db_vars := (db_vars st)(componentId \<mapsto>
                                     \<lparr> s_lastUpdated = clock st, s_vars = stored \<rparr>) \<rparr>;
                            changedVarsKeys = calculateChangedVars stringify oldVars newVars
                        in case getRuneKeys st1 componentId of
                             Inl e \<Rightarrow> (Some e, st1)
                           | Inr runeKeys \<Rightarrow>
                               (case isFullRender isNew runeKeys changedVarsKeys of
                                  Inl e \<Rightarrow> (Some e, st1)
                                | Inr fullRender \<Rightarrow>
                                    (case renderOrPatch co fullRender container componentId
                                            (withPlaceHolders vs) changedVarsKeys st1 of
                                       (Some e, st2) \<Rightarrow> (Some e, st2)
                                     | (None, st2) \<Rightarrow>
                                         (case renderSubs n co container isNew (subComponentsOf vs) st2 of
                                            (Some e, st3) \<Rightarrow> (Some e, st3)
                                          | (None, st3) \<Rightarrow>
                                              if fullRender
                                              then perform co (AfterRender componentId (Container container)) st3
                                              else (None, st3))))))))"
| "renderSubs n co container isNew [] st = (None, st)"
| "renderSubs n co container isNew (sub # subs) st =
     (case getComponentNameAndId st sub of
        Inl e \<Rightarrow> (Some e, st)
      | Inr (subComponentName, i) \<Rightarrow>
          (case template_get st subComponentName of
             Inl e \<Rightarrow> (Some e, st)
           | Inr t \<Rightarrow>
               (case n of
                  0 \<Rightarrow> (Some RangeError, st)
                | Suc k \<Rightarrow>
                    (case render k co (getSubComponent co container sub) sub isNew t st of
                       (Some e, st1) \<Rightarrow> (Some e, st1)
                     | (None, st1) \<Rightarrow> renderSubs n co container isNew subs st1))))"

section \<open>The reactor\<close>

text \<open>
  The first component of a server response (\<^verbatim>\<open>response.components[0]\<close>), and the request
  \<^verbatim>\<open>_fetch\<close> sends for one component (with the version of the locally stored template as
  the probe).
\<close>

record compResponse =
  c_vars :: vars
  c_version :: "string option"
  c_id :: "string option"

record fetchRequest =
  f_componentId :: string
  f_mode :: string
  f_component :: string
  f_id :: string
  f_vars :: vars
  f_templateVersion :: string

text \<open>
  An asynchronous call, suspended at one of its \<^verbatim>\<open>await\<close>s or settled.  A promise that is
  settled already when it is awaited carries its outcome; \<open>AwaitFetch None\<close> is a remote
  component exchange that is outstanding and \<open>AwaitTemplateFetch\<close> a remote template fetch
  that is outstanding (with the stored template \<^verbatim>\<open>getOrFetch\<close> read before it).
  \<open>AwaitCsrPass\<close> and \<open>AwaitRespawn\<close> wait for another call of \<^verbatim>\<open>react\<close>;
  \<open>AwaitRun\<close> is \<^verbatim>\<open>react\<close> (or \<^verbatim>\<open>start\<close>) waiting for its \<^verbatim>\<open>_run\<close>, whose outcome
  is known.
\<close>

datatype pc =
    AwaitCsrPass nat
  | AwaitFetch "(error + compResponse) option"
  | AwaitTemplateFetch template
  | AwaitTemplate "error + template"
  | AwaitDao "error option"
  | AwaitRun "error option"
  | AwaitRespawn nat "error option"
  | Settled "error option"

text \<open>
  One call of \<^verbatim>\<open>react\<close> (\<open>k_react\<close>) or of \<^verbatim>\<open>start\<close> with the locals of the call and
  of its \<^verbatim>\<open>_run\<close>: \<open>k_mode\<close> is the mode the caller passed, \<open>k_reactorMode\<close> the local
  \<^verbatim>\<open>reactorMode\<close> (the resolved mode, downgraded or not), \<open>k_requestSerial\<close> the captured
  serial number once the counter was incremented.
\<close>

record task =
  k_react :: bool
  k_componentId :: string
  k_name :: string
  k_id :: "string option"
  k_mode :: "string option"
  k_reactorMode :: string
  k_requestSerial :: "nat option"
  k_isNew :: bool
  k_vars :: "vars option"
  k_version :: "string option"
  k_template :: template
  k_pc :: pc

text \<open>
  The reactor: its InstanceDao, the in-flight counters, the calls made so far (a call is
  named by its position), the component exchanges sent so far (each with the serial number of
  the call that sent it, none for \<^verbatim>\<open>start\<close>), the root container with the log of
  \<^verbatim>\<open>container.appendChild\<close>, the configuration, and the depth of the call stack.  The
  InstanceDao is in place: it was handed to the constructor, or an earlier \<^verbatim>\<open>start\<close> made it.
\<close>

record reactor =
  instanceDao :: dao
  inFlight :: "string \<rightharpoonup> nat"
  tasks :: "task list"
  fetches :: "(nat option \<times> fetchRequest) list"
  reactorRoot :: "string option"
  appended :: "(string \<times> string) list"
  reactorConfig :: config
  stackDepth :: nat

definition newTask ::
  "bool \<Rightarrow> string \<Rightarrow> string \<Rightarrow> string option \<Rightarrow> string option \<Rightarrow> string \<Rightarrow> pc \<Rightarrow> task" where
  "newTask isReact componentId name i mode reactorMode p =
     \<lparr> k_react = isReact, k_componentId = componentId, k_name = name, k_id = i, k_mode = mode,
       k_reactorMode = reactorMode, k_requestSerial = None, k_isNew = False, k_vars = None,
       k_version = None, k_template = emptyTemplate, k_pc = p \<rparr>"

definition addTask :: "task \<Rightarrow> reactor \<Rightarrow> nat \<times> reactor" where
  "addTask t r = (length (tasks r), r\<lparr> tasks := tasks r @ [t] \<rparr>)"

subsection \<open>The unit of work\<close>

text \<open>
  \<^verbatim>\<open>_run\<close>, cut at its \<^verbatim>\<open>await\<close>s.  \<open>runTemplate\<close> is the call of \<^verbatim>\<open>getOrFetch\<close> up
  to its \<^verbatim>\<open>await\<close>.
\<close>

definition runTemplate :: "task \<Rightarrow> reactor \<Rightarrow> task \<times> reactor" where
  "runTemplate t r =
     (case getOrFetchBegin (k_name t) (k_version t) (instanceDao r) of
        (Inl stored, d) \<Rightarrow> (t\<lparr> k_pc := AwaitTemplate (Inr stored) \<rparr>, r\<lparr> instanceDao := d \<rparr>)
      | (Inr (probe, stored), d) \<Rightarrow> (t\<lparr> k_pc := AwaitTemplateFetch stored \<rparr>, r\<lparr> instanceDao := d \<rparr>))"

text \<open>
  The start of \<^verbatim>\<open>_run\<close>, up to its first \<^verbatim>\<open>await\<close>.  In a mode other than CSR and
  CSR_ONLY it calls \<^verbatim>\<open>_fetch\<close>, which encodes and serializes the variables and sends the
  request; a failure before the request is sent settles \<^verbatim>\<open>_fetch\<close> at once.
\<close>

definition runStart :: "vars option \<Rightarrow> task \<Rightarrow> reactor \<Rightarrow> task \<times> reactor" where
  "runStart initVars t r =
     (let d = instanceDao r;
          isNew = \<not> exists d (k_componentId t)
      in case (if \<not> isNew then map_sum id Some (extractVars d (k_componentId t)) else Inr initVars) of
           Inl e \<Rightarrow> (t\<lparr> k_isNew := isNew, k_pc := AwaitRun (Some e) \<rparr>, r)
         | Inr vs \<Rightarrow>
             (let t1 = t\<lparr> k_isNew := isNew, k_vars := vs,
                          k_version := getVersion d (k_name t) (k_id t) \<rparr>
              in if k_reactorMode t \<noteq> CSR \<and> k_reactorMode t \<noteq> CSR_ONLY
                 then (case encodeVars (stackDepth r) d (case vs of None \<Rightarrow> [] | Some v \<Rightarrow> v)
                              (Some (k_reactorMode t)) of
                         Inl e \<Rightarrow> (t1\<lparr> k_pc := AwaitFetch (Some (Inl e)) \<rparr>, r)
                       | Inr enc \<Rightarrow>
                           (case stringifyFields enc of
                              Inl e \<Rightarrow> (t1\<lparr> k_pc := AwaitFetch (Some (Inl e)) \<rparr>, r)
                            | Inr sent \<Rightarrow>
                                (t1\<lparr> k_pc := AwaitFetch None \<rparr>,
                                 r\<lparr> fetches := fetches r @
                                      [(k_requestSerial t,
                                        \<lparr> f_componentId = k_componentId t,
                                          f_mode = k_reactorMode t, f_component = k_name t,
                                          f_id = (case k_id t of None \<Rightarrow> [] | Some i \<Rightarrow> i),
                                          f_vars = sent,
                                          f_templateVersion = templateGetVersion d (k_name t) \<rparr>)] \<rparr>)))
                 else runTemplate t1 r))"

text \<open>
  \<^verbatim>\<open>_run\<close> after \<^verbatim>\<open>_fetch\<close> answered: the race guard of a creation, then the template.
\<close>

definition afterFetch :: "compResponse \<Rightarrow> task \<Rightarrow> reactor \<Rightarrow> task \<times> reactor" where
  "afterFetch resp t r =
     (let t1 = t\<lparr> k_vars := Some (c_vars resp), k_version := c_version resp, k_id := c_id resp \<rparr>
      in if k_isNew t \<and> exists (instanceDao r) (k_componentId t)
         then (t1\<lparr> k_pc := AwaitRun None \<rparr>, r)
         else runTemplate t1 r)"

text \<open>\<^verbatim>\<open>_run\<close> from the lookup of the container on: the render ends the unit of work.\<close>

definition runRender :: "collab \<Rightarrow> task \<Rightarrow> reactor \<Rightarrow> task \<times> reactor" where
  "runRender co t r =
     (let (err, d) = render (stackDepth r) co (getElementById co (''fusewire_'' @ k_componentId t))
                       (k_componentId t) (k_isNew t) (k_template t) (instanceDao r)
      in (t\<lparr> k_pc := AwaitRun err \<rparr>, r\<lparr> instanceDao := d \<rparr>))"

text \<open>
  \<^verbatim>\<open>_run\<close> once the template is there: a new component is created; an existing one is
  updated only when the in-flight counter of its componentId is 1, and otherwise rendered
  without another \<^verbatim>\<open>await\<close>.  \<^verbatim>\<open>Object.keys\<close> of undefined variables is a TypeError.
\<close>

definition runDao :: "collab \<Rightarrow> template \<Rightarrow> task \<Rightarrow> reactor \<Rightarrow> task \<times> reactor" where
  "runDao co tm t r =
     (let t1 = t\<lparr> k_template := tm \<rparr>
      in if k_isNew t
         then (case k_vars t of
                 None \<Rightarrow> (t1\<lparr> k_pc := AwaitDao (Some (TypeError ''Object.keys'')) \<rparr>, r)
               | Some vs \<Rightarrow>
                   (let (res, d) = create co tm vs (k_id t) (k_version t) (instanceDao r)
                    in (t1\<lparr> k_pc := AwaitDao (case res of Inl e \<Rightarrow> Some e | Inr v \<Rightarrow> None) \<rparr>,
                        r\<lparr> instanceDao := d \<rparr>)))
         else if inFlight r (k_componentId t) = Some 1
         then (case k_vars t of
                 None \<Rightarrow> (t1\<lparr> k_pc := AwaitDao (Some (TypeError ''newVars'')) \<rparr>, r)
               | Some vs \<Rightarrow>
                   (let (err, d) = update co (k_componentId t) vs (k_version t) (instanceDao r)
                    in (t1\<lparr> k_pc := AwaitDao err \<rparr>, r\<lparr> instanceDao := d \<rparr>)))
         else runRender co t1 r)"

subsection \<open>react and start\<close>

text \<open>
  \<^verbatim>\<open>react\<close> from the counter on (the source's lines after the CSR pass): the counter is
  initialised if nothing is found under the componentId, and incremented; its value is the
  serial number of the call, a call with a serial number above 1 switches to CSR, and
  \<^verbatim>\<open>_run\<close> starts.  Under a componentId that names an inherited property the counter is
  not initialised, and incrementing what is found there gives \<^verbatim>\<open>NaN\<close>: the call has no
  number for a serial (\<open>None\<close>), is not switched to CSR, and the counter stays a value that is
  neither undefined nor a number.
\<close>

definition enter :: "task \<Rightarrow> reactor \<Rightarrow> task \<times> reactor" where
  "enter t r =
     (case readKey (inFlight r) (k_componentId t) of
        Inherited \<Rightarrow> runStart None (t\<lparr> k_requestSerial := None \<rparr>) r
      | Undefined \<Rightarrow>
          runStart None (t\<lparr> k_requestSerial := Some 1 \<rparr>)
            (r\<lparr> inFlight := (inFlight r)(k_componentId t \<mapsto> 1) \<rparr>)
      | Own n \<Rightarrow>
          runStart None
            (t\<lparr> k_requestSerial := Some (n + 1),
                k_reactorMode := (if n + 1 > 1 \<and> k_reactorMode t \<noteq> CSR then CSR
                                  else k_reactorMode t) \<rparr>)
            (r\<lparr> inFlight := (inFlight r)(k_componentId t \<mapsto> n + 1) \<rparr>))"

text \<open>
  A call \<^verbatim>\<open>react(component, mode)\<close> up to its first \<^verbatim>\<open>await\<close>; the result names the new
  call.  A call in mode SERVER_WAIT that finds something under the componentId among the
  counters increments it and returns.
  \<open>reactProceed\<close> is the rest: a call in mode SERVER first calls
  \<^verbatim>\<open>react(component, CSR)\<close> and waits for it.
\<close>

definition reactProceed ::
  "string \<Rightarrow> string \<Rightarrow> string option \<Rightarrow> string option \<Rightarrow> string \<Rightarrow> reactor \<Rightarrow> nat \<times> reactor" where
  "reactProceed componentId name i mode reactorMode r =
     (if reactorMode = SERVER
      then (let (t, r1) = enter (newTask True componentId name i (Some CSR) CSR (Settled None)) r;
                (child, r2) = addTask t r1
            in addTask (newTask True componentId name i mode reactorMode (AwaitCsrPass child)) r2)
      else (let (t, r1) = enter (newTask True componentId name i mode reactorMode (Settled None)) r
            in addTask t r1))"

definition reactCall :: "string \<Rightarrow> string option \<Rightarrow> reactor \<Rightarrow> nat \<times> reactor" where
  "reactCall componentId mode r =
     (case getComponentNameAndId (instanceDao r) componentId of
        Inl e \<Rightarrow> addTask (newTask True componentId [] None mode [] (Settled (Some e))) r
      | Inr (name, i) \<Rightarrow>
          (case getReactorMode mode (reactorConfig r) of
             Inl e \<Rightarrow> addTask (newTask True componentId name i mode [] (Settled (Some e))) r
           | Inr reactorMode \<Rightarrow>
               (case readKey (inFlight r) componentId of
                  Undefined \<Rightarrow> reactProceed componentId name i mode reactorMode r
                | Own n \<Rightarrow>
                    if reactorMode = SERVER_WAIT
                    then addTask (newTask True componentId name i mode reactorMode (Settled None))
                           (r\<lparr> inFlight := (inFlight r)(componentId \<mapsto> n + 1) \<rparr>)
                    else reactProceed componentId name i mode reactorMode r
                | Inherited \<Rightarrow>
                    if reactorMode = SERVER_WAIT
                    then addTask (newTask True componentId name i mode reactorMode (Settled None)) r
                    else reactProceed componentId name i mode reactorMode r)))"

text \<open>
  The \<^verbatim>\<open>finally\<close> block of \<^verbatim>\<open>react\<close>, for the call at position \<open>k\<close> whose \<^verbatim>\<open>_run\<close>
  ended with \<open>res\<close>.
\<close>

definition reactFinally :: "nat \<Rightarrow> task \<Rightarrow> error option \<Rightarrow> reactor \<Rightarrow> reactor" where
  "reactFinally k t res r =
     (let respawn = (k_reactorMode t \<noteq> CSR \<and>
                     (case inFlight r (k_componentId t) of None \<Rightarrow> False | Some n \<Rightarrow> n > 1))
      in if k_requestSerial t = Some 1
         then (let r1 = r\<lparr> inFlight := (inFlight r)(k_componentId t := None) \<rparr>
               in if respawn
                  then (let (child, r2) = reactCall (k_componentId t) (k_mode t) r1
                        in r2\<lparr> tasks := (tasks r2)[k := t\<lparr> k_pc := AwaitRespawn child res \<rparr>] \<rparr>)
                  else r1\<lparr> tasks := (tasks r1)[k := t\<lparr> k_pc := Settled res \<rparr>] \<rparr>)
         else r\<lparr> tasks := (tasks r)[k := t\<lparr> k_pc := Settled res \<rparr>] \<rparr>)"

text \<open>
  \<^verbatim>\<open>start(container, component, id, vars, mode)\<close> up to its first \<^verbatim>\<open>await\<close>.  The root
  container is made and appended before the mode is resolved.  The source calls \<^verbatim>\<open>_run\<close>
  with \<^verbatim>\<open>false\<close> in the place of \<^verbatim>\<open>initVars\<close> and \<open>vars\<close> behind it, so the unit of work
  sees no variables, as with an empty object.
\<close>

definition startCall ::
  "string \<Rightarrow> string \<Rightarrow> string option \<Rightarrow> vars option \<Rightarrow> string option \<Rightarrow> reactor \<Rightarrow> nat \<times> reactor" where
  "startCall container cname i vs mode r =
     (let componentId = getComponentId cname i;
          r1 = r\<lparr> reactorRoot := Some (''fusewire_'' @ componentId),
                  appended := appended r @ [(container, ''fusewire_'' @ componentId)] \<rparr>
      in case getReactorMode mode (reactorConfig r1) of
           Inl e \<Rightarrow> addTask (newTask False componentId cname i mode [] (Settled (Some e))) r1
         | Inr reactorMode \<Rightarrow>
             (let (t, r2) = runStart (Some []) (newTask False componentId cname i mode reactorMode (Settled None)) r1
              in addTask t r2))"

subsection \<open>Steps\<close>

text \<open>
  What can happen next: the application calls \<^verbatim>\<open>react\<close> on an instance or \<^verbatim>\<open>start\<close>; a
  suspended call whose awaited promise is settled goes on (\<open>Resume\<close>); the server answers an
  outstanding component exchange (\<open>FetchDone\<close>, with the first component and the templates
  of the response) or an outstanding template fetch (\<open>TemplateDone\<close>); application code
  assigns a variable of an instance (\<open>Mutate\<close>) or removes an instance; the scheduled flush of
  the version index runs; a suspended update of a nested component takes its next step
  (\<open>Background\<close>, with its position in \<open>pendingUpdates\<close>).
\<close>

datatype event =
    React string "string option"
  | Start string string "string option" "vars option" "string option"
  | Resume nat
  | FetchDone nat "error + compResponse \<times> templateResponse list"
  | TemplateDone nat "error + templateResponse list"
  | Mutate string string jsval
  | Remove string
  | Flush
  | Background nat

definition putTask :: "nat \<Rightarrow> task \<times> reactor \<Rightarrow> reactor" where
  "putTask k tr = (snd tr)\<lparr> tasks := (tasks (snd tr))[k := fst tr] \<rparr>"

definition settled :: "reactor \<Rightarrow> nat \<Rightarrow> error option option" where
  "settled r k =
     (if k < length (tasks r)
      then (case k_pc (tasks r ! k) of Settled res \<Rightarrow> Some res | _ \<Rightarrow> None)
      else None)"

text \<open>The continuation of the call at position \<open>k\<close> after its \<^verbatim>\<open>await\<close>.\<close>

definition resume :: "collab \<Rightarrow> nat \<Rightarrow> task \<Rightarrow> reactor \<Rightarrow> reactor option" where
  "resume co k t r =
     (case k_pc t of
        AwaitCsrPass child \<Rightarrow>
          (case settled r child of
             None \<Rightarrow> None
           | Some (Some e) \<Rightarrow> Some (putTask k (t\<lparr> k_pc := Settled (Some e) \<rparr>, r))
           | Some None \<Rightarrow> Some (putTask k (enter t r)))
      | AwaitFetch None \<Rightarrow> None
      | AwaitFetch (Some (Inl e)) \<Rightarrow> Some (putTask k (t\<lparr> k_pc := AwaitRun (Some e) \<rparr>, r))
      | AwaitFetch (Some (Inr resp)) \<Rightarrow> Some (putTask k (afterFetch resp t r))
      | AwaitTemplateFetch stored \<Rightarrow> None
      | AwaitTemplate (Inl e) \<Rightarrow> Some (putTask k (t\<lparr> k_pc := AwaitRun (Some e) \<rparr>, r))
      | AwaitTemplate (Inr tm) \<Rightarrow> Some (putTask k (runDao co tm t r))
      | AwaitDao (Some e) \<Rightarrow> Some (putTask k (t\<lparr> k_pc := AwaitRun (Some e) \<rparr>, r))
      | AwaitDao None \<Rightarrow> Some (putTask k (runRender co t r))
      | AwaitRun res \<Rightarrow>
          if k_react t then Some (reactFinally k t res r)
          else Some (putTask k (t\<lparr> k_pc := Settled res \<rparr>, r))
      | AwaitRespawn child res \<Rightarrow>
          (case settled r child of
             None \<Rightarrow> None
           | Some (Some e) \<Rightarrow> Some (putTask k (t\<lparr> k_pc := Settled (Some e) \<rparr>, r))
           | Some None \<Rightarrow> Some (putTask k (t\<lparr> k_pc := Settled res \<rparr>, r)))
      | Settled res \<Rightarrow> None)"

text \<open>One step; \<open>None\<close> when the event cannot happen in the state.\<close>

definition step :: "collab \<Rightarrow> event \<Rightarrow> reactor \<Rightarrow> reactor option" where
  "step co ev r =
     (case ev of
        React componentId mode \<Rightarrow> Some (snd (reactCall componentId mode r))
      | Start container cname i vs mode \<Rightarrow> Some (snd (startCall container cname i vs mode r))
      | Resume k \<Rightarrow> (if k < length (tasks r) then resume co k (tasks r ! k) r else None)
      | FetchDone k answer \<Rightarrow>
          (if k < length (tasks r) \<and> k_pc (tasks r ! k) = AwaitFetch None
           then (case answer of
                   Inl e \<Rightarrow> Some (putTask k ((tasks r ! k)\<lparr> k_pc := AwaitFetch (Some (Inl e)) \<rparr>, r))
                 | Inr (resp, templates) \<Rightarrow>
                     Some (putTask k ((tasks r ! k)\<lparr> k_pc := AwaitFetch (Some (Inr resp)) \<rparr>,
                             r\<lparr> instanceDao :=
                                   fold (\<lambda>tr d. snd (setFromTemplateResponse tr d)) templates
                                     (instanceDao r) \<rparr>)))
           else None)
      | TemplateDone k answer \<Rightarrow>
          (if k < length (tasks r)
           then (case k_pc (tasks r ! k) of
                   AwaitTemplateFetch stored \<Rightarrow>
                     (let (res, d) = getOrFetchEnd stored answer (instanceDao r)
                      in Some (putTask k ((tasks r ! k)\<lparr> k_pc := AwaitTemplate res \<rparr>,
                                 r\<lparr> instanceDao := d \<rparr>)))
                 | _ \<Rightarrow> None)
           else None)
      | Mutate componentId key v \<Rightarrow>
          Some (r\<lparr> instanceDao := setInstanceProp componentId key v (instanceDao r) \<rparr>)
      | Remove componentId \<Rightarrow>
          Some (r\<lparr> instanceDao := snd (remove_instance co componentId (instanceDao r)) \<rparr>)
      | Flush \<Rightarrow> Some (r\<lparr> instanceDao := flushVersions (instanceDao r) \<rparr>)
      | Background j \<Rightarrow>
          (case updateStep co j (instanceDao r) of
             None \<Rightarrow> None
           | Some d \<Rightarrow> Some (r\<lparr> instanceDao := d \<rparr>)))"

text \<open>A run: the events one after the other, from the left.\<close>

fun run :: "collab \<Rightarrow> event list \<Rightarrow> reactor \<Rightarrow> reactor option" where
  "run co [] r = Some r"
| "run co (ev # evs) r = (case step co ev r of None \<Rightarrow> None | Some r' \<Rightarrow> run co evs r')"

text \<open>A reactor that has made no call yet.\<close>

definition idle :: "reactor \<Rightarrow> bool" where
  "idle r = (inFlight r = Map.empty \<and> tasks r = [] \<and> fetches r = [])"

section \<open>Invariants of the reactor\<close>

text \<open>
  A call is between the increment of the counter and its \<^verbatim>\<open>finally\<close> block exactly when it
  waits inside its \<^verbatim>\<open>_run\<close>.  \<open>holds1\<close> is a call of \<^verbatim>\<open>react\<close> that is there with
  serial number 1, \<open>outstanding\<close> one whose component exchange is outstanding.
\<close>

fun tryPc :: "pc \<Rightarrow> bool" where
  "tryPc (AwaitFetch x) = True"
| "tryPc (AwaitTemplateFetch t) = True"
| "tryPc (AwaitTemplate x) = True"
| "tryPc (AwaitDao x) = True"
| "tryPc (AwaitRun x) = True"
| "tryPc p = False"

definition holds1 :: "string \<Rightarrow> task \<Rightarrow> bool" where
  "holds1 componentId t =
     (k_react t \<and> k_componentId t = componentId \<and> k_requestSerial t = Some 1 \<and> tryPc (k_pc t))"

definition outstanding :: "string \<Rightarrow> task \<Rightarrow> bool" where
  "outstanding componentId t =
     (k_react t \<and> k_componentId t = componentId \<and> k_pc t = AwaitFetch None)"

text \<open>
  What holds of every call: a call of \<^verbatim>\<open>react\<close> has a serial number once it is inside
  \<^verbatim>\<open>_run\<close>, unless its componentId names an inherited property; its effective mode is CSR
  when the serial number is above 1, and it is not CSR while it waits for \<^verbatim>\<open>_fetch\<close>; a call
  of \<^verbatim>\<open>start\<close> has no serial number.
\<close>

definition wfTask :: "task \<Rightarrow> bool" where
  "wfTask t =
     (if k_react t
      then (case k_requestSerial t of
              None \<Rightarrow> \<not> tryPc (k_pc t) \<or> k_componentId t \<in> set objectPrototypeKeys
            | Some n \<Rightarrow> 1 \<le> n \<and> (1 < n \<longrightarrow> k_reactorMode t = CSR)) \<and>
           (\<forall>x. k_pc t = AwaitFetch x \<longrightarrow> k_reactorMode t \<noteq> CSR)
      else k_requestSerial t = None \<and> (\<forall>c. k_pc t \<noteq> AwaitCsrPass c))"

text \<open>
  The counters are at least 1, and a component exchange was sent by \<^verbatim>\<open>start\<close> or by a call
  with serial number 1.
\<close>

definition countersOk :: "reactor \<Rightarrow> bool" where
  "countersOk r =
     ((\<forall>c n. inFlight r c = Some n \<longrightarrow> 1 \<le> n) \<and>
      (\<forall>sf \<in> set (fetches r). fst sf = None \<or> fst sf = Some 1))"

text \<open>
  The invariant: for every componentId at most one call holds serial number 1 inside its
  \<^verbatim>\<open>_run\<close>, and none when the counter is absent.
\<close>

definition inv :: "reactor \<Rightarrow> bool" where
  "inv r =
     ((\<forall>c. length (filter (holds1 c) (tasks r)) \<le> (case inFlight r c of None \<Rightarrow> 0 | Some n \<Rightarrow> 1)) \<and>
      (\<forall>t \<in> set (tasks r). wfTask t) \<and>
      countersOk r)"

text \<open>
  \<open>sameCall\<close>: a step within \<^verbatim>\<open>_run\<close> leaves the identity of the call alone.  \<open>delta\<close>:
  what a call of \<^verbatim>\<open>react\<close> for a componentId adds to the reactor.
\<close>

definition sameCall :: "task \<Rightarrow> task \<Rightarrow> bool" where
  "sameCall t t' =
     (k_react t' = k_react t \<and> k_componentId t' = k_componentId t \<and>
      k_requestSerial t' = k_requestSerial t \<and> k_reactorMode t' = k_reactorMode t \<and>
      k_mode t' = k_mode t)"

definition delta :: "string \<Rightarrow> reactor \<Rightarrow> reactor \<Rightarrow> task list \<Rightarrow> bool" where
  "delta c r r' new =
     (tasks r' = tasks r @ new \<and> (\<forall>t \<in> set new. wfTask t) \<and>
      length (filter (holds1 c) new) \<le> 1 \<and>
      (\<forall>c'. \<forall>t \<in> set new. holds1 c' t \<longrightarrow> c' = c \<and> inFlight r c = None \<and> inFlight r' c \<noteq> None) \<and>
      (\<forall>c'. c' \<noteq> c \<longrightarrow> inFlight r' c' = inFlight r c') \<and>
      (inFlight r c \<noteq> None \<longrightarrow> inFlight r' c \<noteq> None) \<and>
      countersOk r')"

section \<open>Envelopes\<close>


fun depth :: "jsval \<Rightarrow> nat"
and depthFields :: "(string \<times> jsval) list \<Rightarrow> nat"
where
  "depth (JEnv m cname i vs ver) = Suc (depthFields vs)"
| "depth v = 0"
| "depthFields [] = 0"
| "depthFields ((key, v) # kvs) = max (depth v) (depthFields kvs)"





section \<open>Fixtures\<close>

text \<open>
  A fresh session (\<^verbatim>\<open>this.instances = {}\<close>, empty local storage), the lifecycle hooks
  of the \<^verbatim>\<open>Component\<close> base class (all three do nothing), and collaborators that
  always succeed.
\<close>

definition emptyDao :: dao where
  "emptyDao = \<lparr> instances = Map.empty, versions = Map.empty, setTimeOut = False,
                  db_template = Map.empty, db_versions = Map.empty, db_vars = Map.empty,
                  templateFetches = [], hookCalls = [], rendered = [], clock = 0,
                  cfg = \<lparr> defaultReactorMode = SSR, useShadowElement = False,
                          fusewireTags = (''(('', ''))'') \<rparr>,
                  reactorId = ''a1'', pendingUpdates = [] \<rparr>"

definition baseCollab :: collab where
  "baseCollab = \<lparr> hydrateHook = (\<lambda>i inst. (None, inst)),
                    updateHook = (\<lambda>i old inst. (None, inst)),
                    destroyHook = (\<lambda>i inst. None),
                    loader = (\<lambda>t. Inr []),
                    fetchTemplates = (\<lambda>p. Inr []),
                    getElementById = (\<lambda>e. Some e),
                    getSubComponent = (\<lambda>c i. Some (''fusewire_'' @ i)),
                    getRune = (\<lambda>i k. True),
                    rendererFails = (\<lambda>a. None) \<rparr>"

definition counterRecord :: "string option \<Rightarrow> int \<Rightarrow> string \<Rightarrow> instRecord" where
  "counterRecord i n v =
     \<lparr> i_lastUpdated = 0, i_instance = [(''count'', JNum n), (''label'', JStr ''clicks'')],
       i_component = ''counter'', i_id = i, i_serverVarKeys = [''count'', ''label''],
       i_runesKeys = [''count''], i_version = Some v \<rparr>"

definition counterTemplate :: "string \<Rightarrow> template" where
  "counterTemplate v =
     \<lparr> t_component = Some ''counter'', t_jsCode = Some ''export class counter {}'',
       t_cssCode = Some [], t_htmlCode = Some ''<b>(({$count}))</b>'',
       t_version = Some v, t_lastUpdated = Some 0 \<rparr>"

definition counterResponse :: "string \<Rightarrow> templateResponse" where
  "counterResponse v =
     \<lparr> r_component = ''counter'', r_jsCode = ''export class counter {}'', r_cssCode = [],
       r_htmlCode = ''<b>(( $count ))</b>'', r_version = Some v \<rparr>"

text \<open>A session whose cache holds the template of \<open>counter\<close> at the given version.\<close>

definition cachedDao :: "string \<Rightarrow> dao" where
  "cachedDao v = emptyDao\<lparr> db_template := [''counter'' \<mapsto> counterTemplate v],
                            versions := [''counter'' \<mapsto> Some v] \<rparr>"

text \<open>
  The scenario of the counter: its template arrives from the server and is installed, the
  component is created with \<open>{count: 0}\<close> and rendered as new, then updated to
  \<open>{count: 1}\<close>.
\<close>

definition counterCollab :: collab where
  "counterCollab = baseCollab\<lparr> fetchTemplates := (\<lambda>p. Inr [counterResponse ''v1'']) \<rparr>"

definition fetchedCounterTemplate :: template where
  "fetchedCounterTemplate = fst (setFromTemplateResponse (counterResponse ''v1'') emptyDao)"

definition counterCreated :: dao where
  "counterCreated =
     snd (create counterCollab fetchedCounterTemplate [(''count'', JNum 0)] None (Some ''v1'')
            (snd (setFromTemplateResponse (counterResponse ''v1'') emptyDao)))"

definition counterUpdated :: dao where
  "counterUpdated =
     snd (update counterCollab ''counter'' [(''count'', JNum 1)] (Some ''v1'')
            (snd (render 0 counterCollab (Some ''fusewire_counter'') ''counter'' True
                    fetchedCounterTemplate counterCreated)))"

text \<open>
  A panel with a title, a count and a nested counter, all three bound to runes: created from
  the server's envelope, rendered as new, and then changed by the application in one of its
  own variables and in a variable of the nested counter.
\<close>

definition panelResponse :: templateResponse where
  "panelResponse =
     \<lparr> r_component = ''panel'', r_jsCode = ''export class panel {}'', r_cssCode = [],
       r_htmlCode = ''<h1>(( $title ))</h1><i>(( $count ))</i><div>(( $child ))</div>'',
       r_version = Some ''v1'' \<rparr>"

definition panelCollab :: collab where
  "panelCollab = baseCollab\<lparr> fetchTemplates :=
     (\<lambda>p. if fst p = ''panel'' then Inr [panelResponse] else Inr [counterResponse ''v1'']) \<rparr>"

definition panelTemplate :: template where
  "panelTemplate = fst (setFromTemplateResponse panelResponse emptyDao)"

definition panelCreated :: dao where
  "panelCreated =
     snd (create panelCollab panelTemplate
            [(''title'', JStr ''Totals''), (''count'', JNum 0),
             (''child'', JEnv (Some SERVER) ''counter'' None [(''count'', JNum 0)] (Some ''v1''))]
            None (Some ''v1'')
            (snd (setFromTemplateResponse panelResponse emptyDao)))"

definition panelRendered :: dao where
  "panelRendered =
     snd (render 4 panelCollab (Some ''fusewire_panel'') ''panel'' True panelTemplate panelCreated)"

definition panelChanged :: dao where
  "panelChanged = setInstanceProp ''panel'' ''count'' (JNum 1)
                    (setInstanceProp ''counter'' ''count'' (JNum 7) panelRendered)"

text \<open>
  A reactor whose registry holds the counter, created and rendered, and the run of two
  overlapping calls \<open>react(SERVER)\<close> on it: \<open>firstInFlight\<close> takes the first call through
  its CSR pass up to its outstanding exchange, \<open>secondSettled\<close> adds the second call and
  runs it to its end.
\<close>

definition counterReactor :: reactor where
  "counterReactor =
     \<lparr> instanceDao = snd (render 0 counterCollab (Some ''fusewire_counter'') ''counter'' True
                            fetchedCounterTemplate counterCreated),
       inFlight = Map.empty, tasks = [], fetches = [],
       reactorRoot = Some ''fusewire_counter'', appended = [(''body'', ''fusewire_counter'')],
       reactorConfig = cfg emptyDao, stackDepth = 8 \<rparr>"

text \<open>
  The same reactor with a second component whose name, and so whose componentId, is the name
  of a property every object inherits.
\<close>

definition valueOfReactor :: reactor where
  "valueOfReactor =
     counterReactor\<lparr> instanceDao :=
       (instanceDao counterReactor)\<lparr> instances :=
          (instances (instanceDao counterReactor))(''valueOf'' \<mapsto>
             \<lparr> i_lastUpdated = 0, i_instance = [(''count'', JNum 0)], i_component = ''valueOf'',
               i_id = None, i_serverVarKeys = [''count''], i_runesKeys = [''count''],
               i_version = Some ''v1'' \<rparr>) \<rparr> \<rparr>"


definition firstInFlight :: "event list" where
  "firstInFlight = [React ''counter'' (Some SERVER), Resume 0, Resume 0, Resume 0, Resume 1]"

definition secondSettled :: "event list" where
  "secondSettled = firstInFlight @
     [React ''counter'' (Some SERVER), Resume 2, Resume 2, Resume 3, Resume 3, Resume 3]"





section \<open>Properties\<close>




text \<open>
  C7: the version compared in a unit of work is meant to be the tracked version of the derived
  componentId.  With an id, \<open>getVersion\<close> misses the record tracked under
  \<open>counter_7\<close> (version \<open>v3\<close>), because it reads the registry under \<open>counter\<close>, and
  answers with the version \<open>v1\<close> of the cached template.
\<close>

theorem getVersion_reads_bare_component_name:
  "instances (cachedDao ''v1''\<lparr> instances := [''counter_7'' \<mapsto> counterRecord (Some ''7'') 0 ''v3''] \<rparr>)
      (getComponentId ''counter'' (Some ''7'')) = Some (counterRecord (Some ''7'') 0 ''v3'') \<and>
   i_version (counterRecord (Some ''7'') 0 ''v3'') = Some ''v3'' \<and>
   getVersion (cachedDao ''v1''\<lparr> instances := [''counter_7'' \<mapsto> counterRecord (Some ''7'') 0 ''v3''] \<rparr>)
      ''counter'' (Some ''7'') = Some ''v1''"
  by (simp add: getVersion_def readKey_def objectPrototypeKeys_def getComponentId_def
      templateGetVersion_def cachedDao_def emptyDao_def counterRecord_def counterTemplate_def)

text \<open>
  C5: the update hook is documented to receive only the variables that changed.  Updating
  \<open>counter\<close> from \<open>{count: 0, label: 'clicks'}\<close> to \<open>{count: 1, label: 'clicks'}\<close> hands the
  hook the old value of \<open>label\<close> as well, although it did not change.
\<close>

theorem update_hook_receives_unchanged_keys:
  "hookCalls (snd (update baseCollab ''counter'' [(''count'', JNum 1), (''label'', JStr ''clicks'')]
                     (Some ''v1'')
                     (emptyDao\<lparr> instances := [''counter'' \<mapsto> counterRecord None 0 ''v1''] \<rparr>)))
   = [(''counter'', [(''count'', JNum 0), (''label'', JStr ''clicks'')])] \<and>
   fst (update baseCollab ''counter'' [(''count'', JNum 1), (''label'', JStr ''clicks'')]
          (Some ''v1'')
          (emptyDao\<lparr> instances := [''counter'' \<mapsto> counterRecord None 0 ''v1''] \<rparr>)) = None \<and>
   extractVars (snd (update baseCollab ''counter'' [(''count'', JNum 1), (''label'', JStr ''clicks'')]
                       (Some ''v1'')
                       (emptyDao\<lparr> instances := [''counter'' \<mapsto> counterRecord None 0 ''v1''] \<rparr>)))
      ''counter'' = Inr [(''count'', JNum 1), (''label'', JStr ''clicks'')]"
  by (simp add: update_def callUpdateHook_def emptyDao_def baseCollab_def counterRecord_def
      getProp_def instanceOf_def setInstanceProp_def setInstance_def extractVars_def readKey_def)




subsection \<open>The render strategy\<close>

lemma perform_result: "perform co a st = (r, st') \<Longrightarrow> rendered st' = rendered st @ [a]"
  by (auto simp: perform_def)

lemma renderRunes_rendered:
  "renderRunes co componentId vs keys st = (None, st') \<Longrightarrow>
   rendered st' = rendered st @
     concat (map (\<lambda>key. [RenderRune componentId key (getProp vs key),
                          AfterRender componentId (Rune componentId key)])
                 (filter (\<lambda>key. \<not> isPlaceHolder (getProp vs key)) keys))"
proof (induction keys arbitrary: st)
  case Nil
  then show ?case by simp
next
  case (Cons key keys)
  show ?case
  proof (cases "isPlaceHolder (getProp vs key)")
    case True
    with Cons show ?thesis by simp
  next
    case False
    with Cons.prems obtain st1 st2 where
      p1: "perform co (RenderRune componentId key (getProp vs key)) st = (None, st1)" and
      p2: "perform co (AfterRender componentId (Rune componentId key)) st1 = (None, st2)" and
      r: "renderRunes co componentId vs keys st2 = (None, st')"
      by (auto split: if_splits prod.splits option.splits)
    from Cons.IH [OF r] perform_result [OF p1] perform_result [OF p2] False
    show ?thesis by simp
  qed
qed

lemma renderRunes_appends:
  "\<exists>acts. rendered (snd (renderRunes co componentId vs keys st)) = rendered st @ acts"
proof (induction keys arbitrary: st)
  case Nil
  then show ?case by simp
next
  case (Cons key keys)
  obtain a where a: "rendered (snd (renderRunes co componentId vs keys st)) = rendered st @ a"
    using Cons.IH by blast
  obtain b where b: "rendered (snd (renderRunes co componentId vs keys
       (snd (perform co (AfterRender componentId (Rune componentId key))
          (snd (perform co (RenderRune componentId key (getProp vs key)) st)))))) =
     rendered (snd (perform co (AfterRender componentId (Rune componentId key))
          (snd (perform co (RenderRune componentId key (getProp vs key)) st)))) @ b"
    using Cons.IH by blast
  show ?case
    using a b by (auto simp: perform_def split: prod.splits option.splits)
qed

lemma renderOrPatch_appends:
  "\<exists>acts. rendered (snd (renderOrPatch co full c componentId vs keys st)) = rendered st @ acts"
  using renderRunes_appends [of co componentId vs keys st]
  by (simp add: renderOrPatch_def perform_def)

lemma appends_trans:
  "\<exists>a. rendered st1 = rendered st @ a \<Longrightarrow> \<exists>b. rendered st2 = rendered st1 @ b \<Longrightarrow>
   \<exists>c. rendered st2 = rendered (st :: dao) @ c"
  by auto

lemma render_unfold:
  assumes vs: "extractVars st componentId = Inr vs"
    and nv: "encodeVars n st vs None = Inr newVars"
    and sf: "stringifyFields newVars = Inr stored"
  shows "\<exists>runeKeys. getRuneKeys st componentId = Inr (Some runeKeys) \<and>
     render n co (Some container) componentId isNew t st =
       (let st1 = st\<lparr> db_vars := (db_vars st)(componentId \<mapsto>
                        \<lparr> s_lastUpdated = clock st, s_vars = stored \<rparr>) \<rparr>;
            changed = calculateChangedVars stringify
                        (case db_vars st componentId of None \<Rightarrow> [] | Some sn \<Rightarrow> s_vars sn) newVars;
            full = (isNew \<or> \<not> list_all (\<lambda>key. key \<in> set runeKeys) changed)
        in case renderOrPatch co full container componentId (withPlaceHolders vs) changed st1 of
             (Some e, st2) \<Rightarrow> (Some e, st2)
           | (None, st2) \<Rightarrow>
               (case renderSubs n co container isNew (subComponentsOf vs) st2 of
                  (Some e, st3) \<Rightarrow> (Some e, st3)
                | (None, st3) \<Rightarrow>
                    if full then perform co (AfterRender componentId (Container container)) st3
                    else (None, st3)))"
proof -
  from vs obtain r where r: "instances st componentId = Some r"
    by (auto simp: extractVars_def readKey_def split: option.splits if_splits)
  define st1 where "st1 = st\<lparr> db_vars := (db_vars st)(componentId \<mapsto>
                        \<lparr> s_lastUpdated = clock st, s_vars = stored \<rparr>) \<rparr>"
  have rk: "getRuneKeys st componentId = Inr (Some (i_runesKeys r))"
    and rk1: "getRuneKeys st1 componentId = Inr (Some (i_runesKeys r))"
    using r by (simp_all add: getRuneKeys_def readKey_def st1_def)
  have full: "isFullRender isNew (Some (i_runesKeys r)) changed
                = Inr (isNew \<or> \<not> list_all (\<lambda>key. key \<in> set (i_runesKeys r)) changed)" for changed
    by (simp add: isFullRender_def)
  show ?thesis
    apply (rule exI [of _ "i_runesKeys r"])
    apply (rule conjI [OF rk])
    using vs nv sf rk1 [unfolded st1_def]
    apply (simp add: Let_def full)
    done
qed

lemma render_appends:
  "\<exists>acts. rendered (snd (render n co c componentId isNew t st)) = rendered st @ acts"
  "\<exists>acts. rendered (snd (renderSubs n co container isNew subs st)) = rendered st @ acts"
proof (induction n co c componentId isNew t st and n co container isNew subs st
       rule: render_renderSubs.induct)
  case (1 n co componentId isNew t st)
  then show ?case by simp
next
  case (2 n co container componentId isNew t st)
  show ?case
  proof (cases "extractVars st componentId")
    case (Inl e)
    then show ?thesis by simp
  next
    case vs: (Inr vs)
    show ?thesis
    proof (cases "encodeVars n st vs None")
      case (Inl e)
      with vs show ?thesis by simp
    next
      case nv: (Inr newVars)
      show ?thesis
      proof (cases "stringifyFields newVars")
        case (Inl e)
        with vs nv show ?thesis by simp
      next
        case sf: (Inr stored)
        from render_unfold [OF vs nv sf, of co container isNew t] obtain runeKeys where
          rk: "getRuneKeys st componentId = Inr (Some runeKeys)" and
          unf: "render n co (Some container) componentId isNew t st =
       (let st1 = st\<lparr> db_vars := (db_vars st)(componentId \<mapsto>
                        \<lparr> s_lastUpdated = clock st, s_vars = stored \<rparr>) \<rparr>;
            changed = calculateChangedVars stringify
                        (case db_vars st componentId of None \<Rightarrow> [] | Some sn \<Rightarrow> s_vars sn) newVars;
            full = (isNew \<or> \<not> list_all (\<lambda>key. key \<in> set runeKeys) changed)
        in case renderOrPatch co full container componentId (withPlaceHolders vs) changed st1 of
             (Some e, st2) \<Rightarrow> (Some e, st2)
           | (None, st2) \<Rightarrow>
               (case renderSubs n co container isNew (subComponentsOf vs) st2 of
                  (Some e, st3) \<Rightarrow> (Some e, st3)
                | (None, st3) \<Rightarrow>
                    if full then perform co (AfterRender componentId (Container container)) st3
                    else (None, st3)))"
          by (elim exE conjE)
        define st1 where "st1 = st\<lparr> db_vars := (db_vars st)(componentId \<mapsto>
                                     \<lparr> s_lastUpdated = clock st, s_vars = stored \<rparr>) \<rparr>"
        have r1: "rendered st1 = rendered st" by (simp add: st1_def)
        have rk1: "getRuneKeys st1 componentId = Inr (Some runeKeys)"
          using rk by (simp add: st1_def getRuneKeys_def)
        define changed where "changed = calculateChangedVars stringify
              (case db_vars st componentId of None \<Rightarrow> [] | Some sn \<Rightarrow> s_vars sn) newVars"
        define full where "full = (isNew \<or> \<not> list_all (\<lambda>key. key \<in> set runeKeys) changed)"
        have fr: "isFullRender isNew (Some runeKeys) changed = Inr full"
          by (simp add: isFullRender_def full_def)
        define own where "own = renderOrPatch co full container componentId (withPlaceHolders vs) changed st1"
        have unfold: "render n co (Some container) componentId isNew t st =
             (case own of
                (Some e, st2) \<Rightarrow> (Some e, st2)
              | (None, st2) \<Rightarrow>
                  (case renderSubs n co container isNew (subComponentsOf vs) st2 of
                     (Some e, st3) \<Rightarrow> (Some e, st3)
                   | (None, st3) \<Rightarrow>
                       if full then perform co (AfterRender componentId (Container container)) st3
                       else (None, st3)))"
          unfolding unf own_def full_def changed_def st1_def Let_def ..
        obtain a where a: "rendered (snd own) = rendered st @ a"
          using renderOrPatch_appends [of co full container componentId "withPlaceHolders vs" changed st1] r1
          by (auto simp: own_def)
        show ?thesis
        proof (cases "fst own")
          case (Some e)
          then show ?thesis
            using a by (cases own) (simp add: unfold del: render.simps)
        next
          case None
          then obtain st2 where o: "own = (None, st2)" by (cases own) auto
          have "\<exists>acts. rendered (snd (renderSubs n co container isNew (subComponentsOf vs) st2))
                   = rendered st2 @ acts"
            using "2.IH" [OF vs refl nv sf st1_def changed_def rk1 fr
                            o [unfolded own_def, symmetric] refl]
            by simp
          then obtain b where b: "rendered (snd (renderSubs n co container isNew (subComponentsOf vs) st2))
                   = rendered st2 @ b" by blast
          show ?thesis
            using a b o
            by (cases "renderSubs n co container isNew (subComponentsOf vs) st2")
               (auto simp: unfold perform_def simp del: render.simps split: option.splits)
        qed
      qed
    qed
  qed
next
  case (3 n co container isNew st)
  then show ?case by simp
next
  case (4 n co container isNew sub subs st)
  show ?case
  proof (cases "getComponentNameAndId st sub")
    case (Inl e)
    then show ?thesis by simp
  next
    case ni: (Inr p)
    obtain name i where p: "p = (name, i)" by (cases p)
    show ?thesis
    proof (cases "template_get st name")
      case (Inl e)
      with ni p show ?thesis by simp
    next
      case tg: (Inr t)
      show ?thesis
      proof (cases n)
        case 0
        with ni p tg show ?thesis by simp
      next
        case (Suc k)
        obtain r st1 where r: "render k co (getSubComponent co container sub) sub isNew t st = (r, st1)"
          by (cases "render k co (getSubComponent co container sub) sub isNew t st")
        have a: "\<exists>a. rendered st1 = rendered st @ a"
          using "4.IH"(1) [OF ni p [symmetric] tg Suc] r ni p by simp
        show ?thesis
        proof (cases r)
          case (Some e)
          with ni p tg Suc r a show ?thesis by simp
        next
          case None
          have b: "\<exists>b. rendered (snd (renderSubs n co container isNew subs st1)) = rendered st1 @ b"
            using "4.IH"(2) [OF ni p [symmetric] tg Suc r [unfolded None, symmetric] refl] ni p by simp
          from appends_trans [OF a b] ni p tg Suc r None show ?thesis by simp
        qed
      qed
    qed
  qed
qed

lemma encodeVars_keys: "encodeVars n st vs mode = Inr enc \<Longrightarrow> map fst enc = map fst vs"
proof (induction vs arbitrary: enc)
  case Nil
  then show ?case by simp
next
  case (Cons kv vs)
  obtain key v where kv: "kv = (key, v)" by (cases kv)
  show ?case
    using Cons.prems Cons.IH unfolding kv
    by (cases v) (auto split: sum.splits nat.splits prod.splits)
qed

lemma calculateChangedVars_explicit:
  "calculateChangedVars stringify oldVars newVars =
     filter (\<lambda>key. getProp oldVars key = JUndefined \<or>
                   (case getProp newVars key of
                      JBool b \<Rightarrow> getProp newVars key \<noteq> getProp oldVars key
                    | JNum m \<Rightarrow> getProp newVars key \<noteq> getProp oldVars key
                    | JStr s \<Rightarrow> getProp newVars key \<noteq> getProp oldVars key
                    | _ \<Rightarrow> stringify (getProp newVars key) \<noteq> stringify (getProp oldVars key)))
            (map fst newVars)"
  unfolding calculateChangedVars_def
  by (rule filter_cong [OF refl]) (auto simp: varChanged_def split: jsval.splits)

lemma withPlaceHolders_map:
  "withPlaceHolders vs = map (\<lambda>(key, v). (key, case v of JComp c \<Rightarrow> JHolder c | _ \<Rightarrow> v)) vs"
  by (induction vs rule: withPlaceHolders.induct) simp_all

lemma getProp_withPlaceHolders:
  "getProp (withPlaceHolders vs) key = (case getProp vs key of JComp c \<Rightarrow> JHolder c | v \<Rightarrow> v)"
  by (induction vs rule: withPlaceHolders.induct) (simp_all add: getProp_def)

lemma isPlaceHolder_withPlaceHolders:
  "isPlaceHolder (getProp (withPlaceHolders vs) key) =
     (case getProp vs key of JComp c \<Rightarrow> True | JHolder c \<Rightarrow> True | _ \<Rightarrow> False)"
  by (simp add: getProp_withPlaceHolders split: jsval.splits)

lemma getProp_withPlaceHolders_plain:
  "\<not> isPlaceHolder (getProp (withPlaceHolders vs) key) \<Longrightarrow>
   getProp (withPlaceHolders vs) key = getProp vs key"
  by (simp add: getProp_withPlaceHolders split: jsval.splits)


lemma subComponentsOf_explicit:
  "subComponentsOf vs = concat (map (\<lambda>(key, v). case v of JComp c \<Rightarrow> [c] | _ \<Rightarrow> []) vs)"
  by (induction vs rule: subComponentsOf.induct) simp_all

text \<open>
  C6: a call of \<open>render\<close> that goes through performs a full render if and only if \<open>isNew\<close>
  holds or some key reported as changed by the diff is not among the runeKeys of the
  componentId.  The full render is one call of the renderer for the container, with a place
  holder in the place of every nested component, followed by the renders of the nested
  components and the notification for the container.  Otherwise the call patches: for each
  changed key whose value is neither a nested component nor a place holder, in order, it
  rewrites the slot bound to that key with the value of the variable and notifies for the
  slot, and nothing else of this component is rendered; the nested components render after
  that.  The keys reported as changed are the keys of the component's server-owned variables
  for which the stored snapshot has no value, or whose value differs from it: a boolean, a
  number or a string by identity, anything else (a nested component by its encoded
  reference) by its serialized form.
\<close>

theorem render_full_or_patch:
  assumes "render n co (Some container) componentId isNew t st = (None, st')"
  shows "\<exists>vs newVars runeKeys changed subs st2 st3.
     extractVars st componentId = Inr vs \<and>
     encodeVars n st vs None = Inr newVars \<and>
     getRuneKeys st componentId = Inr (Some runeKeys) \<and>
     changed = calculateChangedVars stringify
                 (case db_vars st componentId of None \<Rightarrow> [] | Some sn \<Rightarrow> s_vars sn) newVars \<and>
     (plainFields newVars \<longrightarrow>
        changed =
          filter (\<lambda>key.
                    let old = getProp (case db_vars st componentId of None \<Rightarrow> [] | Some sn \<Rightarrow> s_vars sn) key;
                        new = getProp newVars key
                    in old = JUndefined \<or>
                       (case new of
                          JBool b \<Rightarrow> new \<noteq> old
                        | JNum m \<Rightarrow> new \<noteq> old
                        | JStr s \<Rightarrow> new \<noteq> old
                        | _ \<Rightarrow> stringify new \<noteq> stringify old))
                 (map fst vs)) \<and>
     renderSubs n co container isNew
       (concat (map (\<lambda>(key, v). case v of JComp c \<Rightarrow> [c] | _ \<Rightarrow> []) vs)) st2 = (None, st3) \<and>
     rendered st3 = rendered st2 @ subs \<and>
     (if isNew \<or> (\<exists>key \<in> set changed. key \<notin> set runeKeys)
      then rendered st2 = rendered st @
             [Render container componentId
                (addClientVars componentId
                   (map (\<lambda>(key, v). (key, case v of JComp c \<Rightarrow> JHolder c | _ \<Rightarrow> v)) vs)
                   (reactorId st))] \<and>
           rendered st' = rendered st3 @ [AfterRender componentId (Container container)]
      else rendered st2 = rendered st @
             concat (map (\<lambda>key. [RenderRune componentId key (getProp vs key),
                                  AfterRender componentId (Rune componentId key)])
                         (filter (\<lambda>key. case getProp vs key of
                                           JComp c \<Rightarrow> False | JHolder c \<Rightarrow> False | _ \<Rightarrow> True)
                                 changed)) \<and>
           rendered st' = rendered st3)"
proof -
  from assms obtain vs where vs: "extractVars st componentId = Inr vs"
    by (cases "extractVars st componentId") auto
  from assms vs obtain newVars where nv: "encodeVars n st vs None = Inr newVars"
    by (cases "encodeVars n st vs None") auto
  from assms vs nv obtain stored where sf: "stringifyFields newVars = Inr stored"
    by (cases "stringifyFields newVars") auto
  define old where "old = (case db_vars st componentId of None \<Rightarrow> [] | Some sn \<Rightarrow> s_vars sn)"
  define st1 where "st1 = st\<lparr> db_vars := (db_vars st)(componentId \<mapsto>
                               \<lparr> s_lastUpdated = clock st, s_vars = stored \<rparr>) \<rparr>"
  have r1: "rendered st1 = rendered st" "reactorId st1 = reactorId st"
    by (simp_all add: st1_def)
  define changed where "changed = calculateChangedVars stringify old newVars"
  from render_unfold [OF vs nv sf, of co container isNew t] obtain runeKeys where
    rk: "getRuneKeys st componentId = Inr (Some runeKeys)" and
    unf: "render n co (Some container) componentId isNew t st =
       (let st1 = st\<lparr> db_vars := (db_vars st)(componentId \<mapsto>
                        \<lparr> s_lastUpdated = clock st, s_vars = stored \<rparr>) \<rparr>;
            changed = calculateChangedVars stringify
                        (case db_vars st componentId of None \<Rightarrow> [] | Some sn \<Rightarrow> s_vars sn) newVars;
            full = (isNew \<or> \<not> list_all (\<lambda>key. key \<in> set runeKeys) changed)
        in case renderOrPatch co full container componentId (withPlaceHolders vs) changed st1 of
             (Some e, st2) \<Rightarrow> (Some e, st2)
           | (None, st2) \<Rightarrow>
               (case renderSubs n co container isNew (subComponentsOf vs) st2 of
                  (Some e, st3) \<Rightarrow> (Some e, st3)
                | (None, st3) \<Rightarrow>
                    if full then perform co (AfterRender componentId (Container container)) st3
                    else (None, st3)))"
    by (elim exE conjE)
  define full where "full = (isNew \<or> \<not> list_all (\<lambda>key. key \<in> set runeKeys) changed)"
  define own where "own = renderOrPatch co full container componentId (withPlaceHolders vs) changed st1"
  have unfold: "render n co (Some container) componentId isNew t st =
     (case own of
        (Some e, st2) \<Rightarrow> (Some e, st2)
      | (None, st2) \<Rightarrow>
          (case renderSubs n co container isNew (subComponentsOf vs) st2 of
             (Some e, st3) \<Rightarrow> (Some e, st3)
           | (None, st3) \<Rightarrow>
               if full then perform co (AfterRender componentId (Container container)) st3
               else (None, st3)))"
    unfolding unf own_def full_def changed_def old_def st1_def Let_def ..
  from assms obtain st2 where o: "own = (None, st2)"
    unfolding unfold by (cases own) (auto split: option.splits)
  from assms o obtain st3 where
    s: "renderSubs n co container isNew (subComponentsOf vs) st2 = (None, st3)"
    unfolding unfold
    by (cases "renderSubs n co container isNew (subComponentsOf vs) st2") (auto split: option.splits)
  from render_appends(2) [of n co container isNew "subComponentsOf vs" st2] s
  obtain subs where subs: "rendered st3 = rendered st2 @ subs" by auto
  have full_iff: "full \<longleftrightarrow> isNew \<or> (\<exists>key \<in> set changed. key \<notin> set runeKeys)"
    by (auto simp: full_def list_all_iff)
  have fin: "if full then rendered st' = rendered st3 @ [AfterRender componentId (Container container)]
             else rendered st' = rendered st3"
    using assms o s unfolding unfold by (auto simp: perform_def)
  have patch_eq:
    "map (\<lambda>key. [RenderRune componentId key (getProp (withPlaceHolders vs) key),
                 AfterRender componentId (Rune componentId key)])
         (filter (\<lambda>key. \<not> isPlaceHolder (getProp (withPlaceHolders vs) key)) changed)
     = map (\<lambda>key. [RenderRune componentId key (getProp vs key),
                   AfterRender componentId (Rune componentId key)])
           (filter (\<lambda>key. case getProp vs key of
                             JComp c \<Rightarrow> False | JHolder c \<Rightarrow> False | _ \<Rightarrow> True) changed)"
  proof -
    have f: "filter (\<lambda>key. \<not> isPlaceHolder (getProp (withPlaceHolders vs) key)) changed
             = filter (\<lambda>key. case getProp vs key of
                             JComp c \<Rightarrow> False | JHolder c \<Rightarrow> False | _ \<Rightarrow> True) changed"
      by (rule filter_cong [OF refl]) (simp add: isPlaceHolder_withPlaceHolders split: jsval.splits)
    show ?thesis
      unfolding f
      by (rule map_cong [OF refl]) (auto simp: getProp_withPlaceHolders split: jsval.splits)
  qed
  have ownr: "if full
        then rendered st2 = rendered st @
               [Render container componentId
                  (addClientVars componentId
                     (map (\<lambda>(key, v). (key, case v of JComp c \<Rightarrow> JHolder c | _ \<Rightarrow> v)) vs)
                     (reactorId st))]
        else rendered st2 = rendered st @
               concat (map (\<lambda>key. [RenderRune componentId key (getProp vs key),
                                    AfterRender componentId (Rune componentId key)])
                           (filter (\<lambda>key. case getProp vs key of
                                             JComp c \<Rightarrow> False | JHolder c \<Rightarrow> False | _ \<Rightarrow> True)
                                   changed))"
  proof (cases full)
    case True
    with o r1 show ?thesis
      by (auto simp: own_def renderOrPatch_def perform_def withPlaceHolders_map)
  next
    case False
    with o have "renderRunes co componentId (withPlaceHolders vs) changed st1 = (None, st2)"
      by (simp add: own_def renderOrPatch_def)
    from renderRunes_rendered [OF this] False r1 show ?thesis
      by (simp add: patch_eq)
  qed
  have expl: "changed =
          filter (\<lambda>key.
                    let old = getProp (case db_vars st componentId of None \<Rightarrow> [] | Some sn \<Rightarrow> s_vars sn) key;
                        new = getProp newVars key
                    in old = JUndefined \<or>
                       (case new of
                          JBool b \<Rightarrow> new \<noteq> old
                        | JNum m \<Rightarrow> new \<noteq> old
                        | JStr s \<Rightarrow> new \<noteq> old
                        | _ \<Rightarrow> stringify new \<noteq> stringify old))
                 (map fst vs)"
    unfolding changed_def calculateChangedVars_explicit encodeVars_keys [OF nv] old_def Let_def ..
  have s': "renderSubs n co container isNew
       (concat (map (\<lambda>(key, v). case v of JComp c \<Rightarrow> [c] | _ \<Rightarrow> []) vs)) st2 = (None, st3)"
    using s by (simp add: subComponentsOf_explicit)
  have last: "if isNew \<or> (\<exists>key \<in> set changed. key \<notin> set runeKeys)
      then rendered st2 = rendered st @
             [Render container componentId
                (addClientVars componentId
                   (map (\<lambda>(key, v). (key, case v of JComp c \<Rightarrow> JHolder c | _ \<Rightarrow> v)) vs)
                   (reactorId st))] \<and>
           rendered st' = rendered st3 @ [AfterRender componentId (Container container)]
      else rendered st2 = rendered st @
             concat (map (\<lambda>key. [RenderRune componentId key (getProp vs key),
                                  AfterRender componentId (Rune componentId key)])
                         (filter (\<lambda>key. case getProp vs key of
                                           JComp c \<Rightarrow> False | JHolder c \<Rightarrow> False | _ \<Rightarrow> True)
                                 changed)) \<and>
           rendered st' = rendered st3"
    using fin ownr unfolding full_iff [symmetric] by (cases full) simp_all
  have ch: "changed = calculateChangedVars stringify
                 (case db_vars st componentId of None \<Rightarrow> [] | Some sn \<Rightarrow> s_vars sn) newVars"
    by (simp add: changed_def old_def)
  show ?thesis
    apply (rule exI [of _ vs], rule exI [of _ newVars], rule exI [of _ runeKeys],
           rule exI [of _ changed], rule exI [of _ subs], rule exI [of _ st2], rule exI [of _ st3])
    apply (intro conjI impI)
           apply (rule vs, rule nv, rule rk, rule ch, rule expl, rule s', rule subs, rule last)
    done
qed


lemma counterUpdated_extractVars:
  "extractVars counterUpdated ''counter'' = Inr [(''count'', JNum 1)]"
  by code_simp

lemma counterUpdated_encodeVars:
  "encodeVars 0 counterUpdated [(''count'', JNum 1)] None = Inr [(''count'', JNum 1)]"
  by code_simp

lemma counterUpdated_getRuneKeys: "getRuneKeys counterUpdated ''counter'' = Inr (Some [''count''])"
  by code_simp

lemma counterUpdated_changed:
  "calculateChangedVars stringify
     (case db_vars counterUpdated ''counter'' of None \<Rightarrow> [] | Some sn \<Rightarrow> s_vars sn)
     [(''count'', JNum 1)] = [''count'']"
  by code_simp

lemma counterUpdated_render:
  "fst (render 0 counterCollab (Some ''fusewire_counter'') ''counter'' False
          fetchedCounterTemplate counterUpdated) = None"
  by code_simp

lemma panelChanged_extractVars:
  "extractVars panelChanged ''panel'' =
     Inr [(''title'', JStr ''Totals''), (''count'', JNum 1), (''child'', JComp ''counter'')]"
  by code_simp

lemma panelChanged_encodeVars:
  "encodeVars 4 panelChanged
     [(''title'', JStr ''Totals''), (''count'', JNum 1), (''child'', JComp ''counter'')] None =
   Inr [(''title'', JStr ''Totals''), (''count'', JNum 1),
        (''child'', JEnv None ''counter'' None [(''count'', JNum 7)] None)]"
  by code_simp

lemma panelChanged_plain:
  "plainFields [(''title'', JStr ''Totals''), (''count'', JNum 1),
                (''child'', JEnv None ''counter'' None [(''count'', JNum 7)] None)]"
  by code_simp

lemma panelChanged_getRuneKeys:
  "getRuneKeys panelChanged ''panel'' = Inr (Some [''title'', ''count'', ''child''])"
  by code_simp

lemma panelChanged_diff:
  "filter (\<lambda>key.
             let old = getProp (case db_vars panelChanged ''panel'' of None \<Rightarrow> [] | Some sn \<Rightarrow> s_vars sn) key;
                 new = getProp [(''title'', JStr ''Totals''), (''count'', JNum 1),
                                (''child'', JEnv None ''counter'' None [(''count'', JNum 7)] None)] key
             in old = JUndefined \<or>
                (case new of
                   JBool b \<Rightarrow> new \<noteq> old
                 | JNum m \<Rightarrow> new \<noteq> old
                 | JStr s \<Rightarrow> new \<noteq> old
                 | _ \<Rightarrow> stringify new \<noteq> stringify old))
          (map fst [(''title'', JStr ''Totals''), (''count'', JNum 1), (''child'', JComp ''counter'')])
   = [''count'', ''child'']"
  by code_simp

lemma panelChanged_patch:
  "concat (map (\<lambda>key. [RenderRune ''panel'' key
                          (getProp [(''title'', JStr ''Totals''), (''count'', JNum 1),
                                    (''child'', JComp ''counter'')] key),
                        AfterRender ''panel'' (Rune ''panel'' key)])
               (filter (\<lambda>key. case getProp [(''title'', JStr ''Totals''), (''count'', JNum 1),
                                              (''child'', JComp ''counter'')] key of
                                 JComp c \<Rightarrow> False | JHolder c \<Rightarrow> False | _ \<Rightarrow> True)
                       [''count'', ''child'']))
   = [RenderRune ''panel'' ''count'' (JNum 1), AfterRender ''panel'' (Rune ''panel'' ''count'')]"
  by code_simp

lemma panelChanged_render:
  "fst (render 4 panelCollab (Some ''fusewire_panel'') ''panel'' False panelTemplate panelChanged)
     = None \<and>
   rendered (snd (render 4 panelCollab (Some ''fusewire_panel'') ''panel'' False panelTemplate
                    panelChanged))
     = rendered panelChanged @
       [RenderRune ''panel'' ''count'' (JNum 1), AfterRender ''panel'' (Rune ''panel'' ''count''),
        RenderRune ''counter'' ''count'' (JNum 7), AfterRender ''counter'' (Rune ''counter'' ''count'')]"
  by code_simp

theorem render_full_or_patch_witness:
  "(fst (render 0 counterCollab (Some ''fusewire_counter'') ''counter'' False
          fetchedCounterTemplate counterUpdated) = None \<and>
    rendered (snd (render 0 counterCollab (Some ''fusewire_counter'') ''counter'' False
                     fetchedCounterTemplate counterUpdated))
      = rendered counterUpdated @
        [RenderRune ''counter'' ''count'' (JNum 1), AfterRender ''counter'' (Rune ''counter'' ''count'')]) \<and>
   (fst (render 4 panelCollab (Some ''fusewire_panel'') ''panel'' False panelTemplate panelChanged)
      = None \<and>
    (\<exists>subs. rendered (snd (render 4 panelCollab (Some ''fusewire_panel'') ''panel'' False
                             panelTemplate panelChanged))
       = rendered panelChanged @
         [RenderRune ''panel'' ''count'' (JNum 1), AfterRender ''panel'' (Rune ''panel'' ''count'')] @
         subs) \<and>
    rendered (snd (render 4 panelCollab (Some ''fusewire_panel'') ''panel'' False panelTemplate
                     panelChanged))
      = rendered panelChanged @
        [RenderRune ''panel'' ''count'' (JNum 1), AfterRender ''panel'' (Rune ''panel'' ''count''),
         RenderRune ''counter'' ''count'' (JNum 7), AfterRender ''counter'' (Rune ''counter'' ''count'')])"
proof -
  have counter: "rendered (snd (render 0 counterCollab (Some ''fusewire_counter'') ''counter'' False
                     fetchedCounterTemplate counterUpdated))
      = rendered counterUpdated @
        [RenderRune ''counter'' ''count'' (JNum 1), AfterRender ''counter'' (Rune ''counter'' ''count'')]"
  proof -
    define st' where "st' = snd (render 0 counterCollab (Some ''fusewire_counter'') ''counter'' False
                      fetchedCounterTemplate counterUpdated)"
    have e: "render 0 counterCollab (Some ''fusewire_counter'') ''counter'' False
               fetchedCounterTemplate counterUpdated = (None, st')"
      using counterUpdated_render by (simp add: st'_def prod_eq_iff)
    from render_full_or_patch [OF e] obtain vs newVars runeKeys changed subs st2 st3 where
      vs: "extractVars counterUpdated ''counter'' = Inr vs" and
      nv: "encodeVars 0 counterUpdated vs None = Inr newVars" and
      rk: "getRuneKeys counterUpdated ''counter'' = Inr (Some runeKeys)" and
      ch: "changed = calculateChangedVars stringify
             (case db_vars counterUpdated ''counter'' of None \<Rightarrow> [] | Some sn \<Rightarrow> s_vars sn) newVars" and
      ex: "plainFields newVars \<longrightarrow>
        changed =
          filter (\<lambda>key.
                    let old = getProp (case db_vars counterUpdated ''counter'' of None \<Rightarrow> [] | Some sn \<Rightarrow> s_vars sn) key;
                        new = getProp newVars key
                    in old = JUndefined \<or>
                       (case new of
                          JBool b \<Rightarrow> new \<noteq> old
                        | JNum m \<Rightarrow> new \<noteq> old
                        | JStr s \<Rightarrow> new \<noteq> old
                        | _ \<Rightarrow> stringify new \<noteq> stringify old))
                 (map fst vs)" and
      sb: "renderSubs 0 counterCollab ''fusewire_counter'' False
             (concat (map (\<lambda>(key, v). case v of JComp c \<Rightarrow> [c] | _ \<Rightarrow> []) vs)) st2 = (None, st3)" and
      ap: "rendered st3 = rendered st2 @ subs" and
      main: "if False \<or> (\<exists>key \<in> set changed. key \<notin> set runeKeys)
        then rendered st2 = rendered counterUpdated @
               [Render ''fusewire_counter'' ''counter''
                  (addClientVars ''counter''
                     (map (\<lambda>(key, v). (key, case v of JComp c \<Rightarrow> JHolder c | _ \<Rightarrow> v)) vs)
                     (reactorId counterUpdated))] \<and>
             rendered st' = rendered st3 @ [AfterRender ''counter'' (Container ''fusewire_counter'')]
        else rendered st2 = rendered counterUpdated @
               concat (map (\<lambda>key. [RenderRune ''counter'' key (getProp vs key),
                                    AfterRender ''counter'' (Rune ''counter'' key)])
                           (filter (\<lambda>key. case getProp vs key of
                                             JComp c \<Rightarrow> False | JHolder c \<Rightarrow> False | _ \<Rightarrow> True)
                                   changed)) \<and>
             rendered st' = rendered st3"
      by (elim exE conjE)
    from vs have vs': "vs = [(''count'', JNum 1)]"
      by (simp add: counterUpdated_extractVars)
    from nv have nv': "newVars = [(''count'', JNum 1)]"
      by (simp add: vs' counterUpdated_encodeVars)
    from rk have rk': "runeKeys = [''count'']"
      by (simp add: counterUpdated_getRuneKeys)
    from ch have ch': "changed = [''count'']"
      by (simp add: nv' counterUpdated_changed)
    from sb ap have subs: "subs = []"
      by (simp add: vs')
    from main have "rendered st' = rendered counterUpdated @
         [RenderRune ''counter'' ''count'' (JNum 1), AfterRender ''counter'' (Rune ''counter'' ''count'')]"
      using ap by (simp add: vs' rk' ch' subs getProp_def)
    then show ?thesis by (simp add: st'_def)
  qed
  have panel: "\<exists>subs. rendered (snd (render 4 panelCollab (Some ''fusewire_panel'') ''panel'' False
                             panelTemplate panelChanged))
       = rendered panelChanged @
         [RenderRune ''panel'' ''count'' (JNum 1), AfterRender ''panel'' (Rune ''panel'' ''count'')] @
         subs"
  proof -
    define st' where "st' = snd (render 4 panelCollab (Some ''fusewire_panel'') ''panel'' False
                             panelTemplate panelChanged)"
    have e: "render 4 panelCollab (Some ''fusewire_panel'') ''panel'' False
               panelTemplate panelChanged = (None, st')"
      using panelChanged_render by (simp add: st'_def prod_eq_iff)
    from render_full_or_patch [OF e] obtain vs newVars runeKeys changed subs st2 st3 where
      vs: "extractVars panelChanged ''panel'' = Inr vs" and
      nv: "encodeVars 4 panelChanged vs None = Inr newVars" and
      rk: "getRuneKeys panelChanged ''panel'' = Inr (Some runeKeys)" and
      ch: "changed = calculateChangedVars stringify
             (case db_vars panelChanged ''panel'' of None \<Rightarrow> [] | Some sn \<Rightarrow> s_vars sn) newVars" and
      ex: "plainFields newVars \<longrightarrow>
        changed =
          filter (\<lambda>key.
                    let old = getProp (case db_vars panelChanged ''panel'' of None \<Rightarrow> [] | Some sn \<Rightarrow> s_vars sn) key;
                        new = getProp newVars key
                    in old = JUndefined \<or>
                       (case new of
                          JBool b \<Rightarrow> new \<noteq> old
                        | JNum m \<Rightarrow> new \<noteq> old
                        | JStr s \<Rightarrow> new \<noteq> old
                        | _ \<Rightarrow> stringify new \<noteq> stringify old))
                 (map fst vs)" and
      sb: "renderSubs 4 panelCollab ''fusewire_panel'' False
             (concat (map (\<lambda>(key, v). case v of JComp c \<Rightarrow> [c] | _ \<Rightarrow> []) vs)) st2 = (None, st3)" and
      ap: "rendered st3 = rendered st2 @ subs" and
      main: "if False \<or> (\<exists>key \<in> set changed. key \<notin> set runeKeys)
        then rendered st2 = rendered panelChanged @
               [Render ''fusewire_panel'' ''panel''
                  (addClientVars ''panel''
                     (map (\<lambda>(key, v). (key, case v of JComp c \<Rightarrow> JHolder c | _ \<Rightarrow> v)) vs)
                     (reactorId panelChanged))] \<and>
             rendered st' = rendered st3 @ [AfterRender ''panel'' (Container ''fusewire_panel'')]
        else rendered st2 = rendered panelChanged @
               concat (map (\<lambda>key. [RenderRune ''panel'' key (getProp vs key),
                                    AfterRender ''panel'' (Rune ''panel'' key)])
                           (filter (\<lambda>key. case getProp vs key of
                                             JComp c \<Rightarrow> False | JHolder c \<Rightarrow> False | _ \<Rightarrow> True)
                                   changed)) \<and>
             rendered st' = rendered st3"
      by (elim exE conjE)
    from vs have vs': "vs = [(''title'', JStr ''Totals''), (''count'', JNum 1), (''child'', JComp ''counter'')]"
      by (simp add: panelChanged_extractVars)
    from nv have nv': "newVars = [(''title'', JStr ''Totals''), (''count'', JNum 1),
                                   (''child'', JEnv None ''counter'' None [(''count'', JNum 7)] None)]"
      unfolding vs' panelChanged_encodeVars by simp
    from rk have rk': "runeKeys = [''title'', ''count'', ''child'']"
      by (simp add: panelChanged_getRuneKeys)
    have pl: "plainFields newVars" unfolding nv' by (rule panelChanged_plain)
    from ex pl have ch': "changed = [''count'', ''child'']"
      unfolding vs' nv' panelChanged_diff by simp
    have nofull: "\<not> (False \<or> (\<exists>key \<in> set changed. key \<notin> set runeKeys))"
      by (simp add: ch' rk')
    from main have m: "rendered st2 = rendered panelChanged @
               concat (map (\<lambda>key. [RenderRune ''panel'' key (getProp vs key),
                                    AfterRender ''panel'' (Rune ''panel'' key)])
                           (filter (\<lambda>key. case getProp vs key of
                                             JComp c \<Rightarrow> False | JHolder c \<Rightarrow> False | _ \<Rightarrow> True)
                                   changed)) \<and>
             rendered st' = rendered st3"
      unfolding if_not_P [OF nofull] .
    note m2 = m [THEN conjunct1] and m3 = m [THEN conjunct2]
    have "rendered st' = rendered panelChanged @
         [RenderRune ''panel'' ''count'' (JNum 1), AfterRender ''panel'' (Rune ''panel'' ''count'')] @ subs"
      unfolding m3 ap m2 vs' ch' panelChanged_patch by simp
    then show ?thesis unfolding st'_def by (rule exI)
  qed
  from counterUpdated_render counter panelChanged_render panel show ?thesis
    by (intro conjI) (simp_all only:)
qed

subsection \<open>The in-flight counter\<close>

lemma count_update:
  "k < length xs \<Longrightarrow>
   length (filter P (xs[k := y])) + (if P (xs ! k) then 1 else 0)
     = length (filter P xs) + (if P y then 1 else 0)"
proof (induction xs arbitrary: k)
  case Nil
  then show ?case by simp
next
  case (Cons x xs)
  then show ?case by (cases k) auto
qed

lemma runTemplate_frame:
  assumes "runTemplate t r = (t', r')"
  shows "sameCall t t' \<and> tryPc (k_pc t') \<and> (\<forall>x. k_pc t' \<noteq> AwaitFetch x) \<and>
         inFlight r' = inFlight r \<and> tasks r' = tasks r \<and> fetches r' = fetches r"
  using assms
  by (auto simp: runTemplate_def sameCall_def split: prod.splits sum.splits)

lemma runStart_frame:
  assumes "runStart iv t r = (t', r')"
  shows "sameCall t t' \<and> tryPc (k_pc t') \<and>
         ((\<exists>x. k_pc t' = AwaitFetch x) \<longrightarrow> k_reactorMode t \<noteq> CSR) \<and>
         inFlight r' = inFlight r \<and> tasks r' = tasks r \<and>
         (fetches r' = fetches r \<or>
          (\<exists>f. fetches r' = fetches r @ [(k_requestSerial t, f)] \<and> k_reactorMode t \<noteq> CSR))"
proof (cases "if \<not> \<not> exists (instanceDao r) (k_componentId t)
              then map_sum id Some (extractVars (instanceDao r) (k_componentId t)) else Inr iv")
  case (Inl e)
  with assms show ?thesis
    by (auto simp: runStart_def Let_def sameCall_def)
next
  case (Inr vs)
  define t1 where "t1 = t\<lparr> k_isNew := \<not> exists (instanceDao r) (k_componentId t), k_vars := vs,
                          k_version := getVersion (instanceDao r) (k_name t) (k_id t) \<rparr>"
  have s1: "sameCall t t1" by (simp add: sameCall_def t1_def)
  show ?thesis
  proof (cases "k_reactorMode t \<noteq> CSR \<and> k_reactorMode t \<noteq> CSR_ONLY")
    case True
    with assms Inr show ?thesis
      by (auto simp: runStart_def Let_def sameCall_def split: sum.splits)
  next
    case False
    with assms Inr have "runTemplate t1 r = (t', r')"
      by (auto simp: runStart_def Let_def t1_def)
    from runTemplate_frame [OF this] s1 show ?thesis
      by (auto simp: sameCall_def)
  qed
qed

lemma afterFetch_frame:
  assumes "afterFetch resp t r = (t', r')"
  shows "sameCall t t' \<and> tryPc (k_pc t') \<and> (\<forall>x. k_pc t' \<noteq> AwaitFetch x) \<and>
         inFlight r' = inFlight r \<and> tasks r' = tasks r \<and> fetches r' = fetches r"
proof (cases "k_isNew t \<and> exists (instanceDao r) (k_componentId t)")
  case True
  with assms show ?thesis by (auto simp: afterFetch_def Let_def sameCall_def)
next
  case False
  with assms have "runTemplate (t\<lparr> k_vars := Some (c_vars resp), k_version := c_version resp,
                                  k_id := c_id resp \<rparr>) r = (t', r')"
    by (auto simp: afterFetch_def Let_def)
  from runTemplate_frame [OF this] show ?thesis by (auto simp: sameCall_def)
qed

lemma runRender_frame:
  assumes "runRender co t r = (t', r')"
  shows "sameCall t t' \<and> tryPc (k_pc t') \<and> (\<forall>x. k_pc t' \<noteq> AwaitFetch x) \<and>
         inFlight r' = inFlight r \<and> tasks r' = tasks r \<and> fetches r' = fetches r"
  using assms
  by (auto simp: runRender_def sameCall_def split: prod.splits)

lemma runDao_frame:
  assumes "runDao co tm t r = (t', r')"
  shows "sameCall t t' \<and> tryPc (k_pc t') \<and> (\<forall>x. k_pc t' \<noteq> AwaitFetch x) \<and>
         inFlight r' = inFlight r \<and> tasks r' = tasks r \<and> fetches r' = fetches r"
proof (cases "k_isNew t \<or> inFlight r (k_componentId t) = Some 1")
  case True
  with assms show ?thesis
    by (auto simp: runDao_def Let_def sameCall_def split: prod.splits option.splits if_splits)
next
  case False
  with assms have "runRender co (t\<lparr> k_template := tm \<rparr>) r = (t', r')"
    by (auto simp: runDao_def Let_def)
  from runRender_frame [OF this] show ?thesis by (auto simp: sameCall_def)
qed

lemma enter_frame:
  assumes "enter t r = (t', r')"
  shows "k_react t' = k_react t \<and> k_componentId t' = k_componentId t \<and> k_mode t' = k_mode t \<and>
         tryPc (k_pc t') \<and>
         ((\<exists>x. k_pc t' = AwaitFetch x) \<longrightarrow> k_reactorMode t' \<noteq> CSR) \<and>
         tasks r' = tasks r \<and>
         (fetches r' = fetches r \<or>
          (\<exists>f. fetches r' = fetches r @ [(k_requestSerial t', f)] \<and> k_reactorMode t' \<noteq> CSR)) \<and>
         (case readKey (inFlight r) (k_componentId t) of
            Inherited \<Rightarrow>
              k_requestSerial t' = None \<and> k_reactorMode t' = k_reactorMode t \<and>
              inFlight r' = inFlight r
          | Undefined \<Rightarrow>
              k_requestSerial t' = Some 1 \<and> k_reactorMode t' = k_reactorMode t \<and>
              inFlight r' = (inFlight r)(k_componentId t \<mapsto> 1)
          | Own n \<Rightarrow>
              k_requestSerial t' = Some (n + 1) \<and>
              k_reactorMode t' = (if n + 1 > 1 \<and> k_reactorMode t \<noteq> CSR then CSR
                                  else k_reactorMode t) \<and>
              inFlight r' = (inFlight r)(k_componentId t \<mapsto> n + 1))"
proof (cases "readKey (inFlight r) (k_componentId t)")
  case Undefined
  with assms have "runStart None (t\<lparr> k_requestSerial := Some 1 \<rparr>)
                     (r\<lparr> inFlight := (inFlight r)(k_componentId t \<mapsto> 1) \<rparr>) = (t', r')"
    by (simp add: enter_def)
  from runStart_frame [OF this] Undefined show ?thesis
    by (auto simp: sameCall_def)
next
  case Inherited
  with assms have "runStart None (t\<lparr> k_requestSerial := None \<rparr>) r = (t', r')"
    by (simp add: enter_def)
  from runStart_frame [OF this] Inherited show ?thesis
    by (auto simp: sameCall_def)
next
  case (Own n)
  define t0 where "t0 = t\<lparr> k_requestSerial := Some (n + 1),
       k_reactorMode := (if n + 1 > 1 \<and> k_reactorMode t \<noteq> CSR then CSR else k_reactorMode t) \<rparr>"
  define r0 where "r0 = r\<lparr> inFlight := (inFlight r)(k_componentId t \<mapsto> n + 1) \<rparr>"
  have "runStart None t0 r0 = (t', r')"
    using assms Own by (simp add: enter_def t0_def r0_def)
  from runStart_frame [OF this] Own show ?thesis
    by (auto simp: sameCall_def t0_def r0_def)
qed

lemma readKey_None:
  "inFlight r c = None \<Longrightarrow>
   readKey (inFlight r) c = Undefined \<or> readKey (inFlight r) c = Inherited"
  by (simp add: readKey_def)

lemma readKey_Own [simp]: "readKey m c = Own n \<longleftrightarrow> m c = Some n"
  by (simp add: readKey_def split: option.splits)

lemma readKey_Inherited:
  "readKey m c = Inherited \<longleftrightarrow> m c = None \<and> c \<in> set objectPrototypeKeys"
  by (simp add: readKey_def split: option.splits)

lemma readKey_Undefined:
  "readKey m c = Undefined \<longleftrightarrow> m c = None \<and> c \<notin> set objectPrototypeKeys"
  by (simp add: readKey_def split: option.splits)

lemma enter_delta:
  assumes e: "enter t r = (t', r')" and re: "k_react t" and ok: "countersOk r"
  shows "wfTask t' \<and> k_componentId t' = k_componentId t \<and>
         (\<forall>c. holds1 c t' \<longrightarrow> c = k_componentId t \<and> inFlight r c = None \<and> inFlight r' c \<noteq> None) \<and>
         (\<forall>c. c \<noteq> k_componentId t \<longrightarrow> inFlight r' c = inFlight r c) \<and>
         (inFlight r (k_componentId t) \<noteq> None \<longrightarrow> inFlight r' (k_componentId t) \<noteq> None) \<and>
         countersOk r' \<and> tasks r' = tasks r"
proof -
  note f = enter_frame [OF e]
  show ?thesis
  proof (cases "readKey (inFlight r) (k_componentId t)")
    case Undefined
    then have n: "inFlight r (k_componentId t) = None" by (simp add: readKey_Undefined)
    have w: "wfTask t'" using f re Undefined by (auto simp: wfTask_def)
    have h: "\<forall>c. holds1 c t' \<longrightarrow> c = k_componentId t \<and> inFlight r c = None \<and> inFlight r' c \<noteq> None"
      using f Undefined n by (auto simp: holds1_def)
    have c: "countersOk r'" using f ok Undefined by (auto simp: countersOk_def)
    from w h c f Undefined show ?thesis by simp
  next
    case Inherited
    then have n: "inFlight r (k_componentId t) = None"
      and p: "k_componentId t \<in> set objectPrototypeKeys"
      by (simp_all add: readKey_Inherited)
    have ser: "k_requestSerial t' = None" using f Inherited by simp
    have w: "wfTask t'" using f re ser p by (auto simp: wfTask_def)
    have nh: "\<And>c. \<not> holds1 c t'" using ser by (simp add: holds1_def)
    have c: "countersOk r'" using f ok Inherited ser by (auto simp: countersOk_def)
    from w nh c f Inherited n show ?thesis by simp
  next
    case (Own n)
    then have s: "inFlight r (k_componentId t) = Some n" by simp
    with ok have n1: "1 \<le> n" by (auto simp: countersOk_def)
    have ser: "k_requestSerial t' = Some (n + 1)" using f Own by simp
    have nh: "\<And>c. \<not> holds1 c t'" using ser n1 by (auto simp: holds1_def)
    have rm: "k_reactorMode t' = CSR" using f Own n1 by auto
    have w: "wfTask t'" using f re ser rm by (auto simp: wfTask_def)
    have c: "countersOk r'" using f ok Own rm by (auto simp: countersOk_def)
    from w nh c f Own show ?thesis by simp
  qed
qed

lemma wf_settled: "wfTask (newTask True c name i mode rm (Settled x))"
  by (simp add: wfTask_def newTask_def)

lemma wf_csrpass: "wfTask (newTask True c name i mode rm (AwaitCsrPass x))"
  by (simp add: wfTask_def newTask_def)

lemma holds1_settled: "\<not> holds1 c' (newTask b c name i mode rm (Settled x))"
  by (simp add: holds1_def newTask_def)

lemma holds1_csrpass: "\<not> holds1 c' (newTask b c name i mode rm (AwaitCsrPass x))"
  by (simp add: holds1_def newTask_def)

lemma countersOk_tasks [simp]: "countersOk (r\<lparr> tasks := ts \<rparr>) = countersOk r"
  by (simp add: countersOk_def)

lemma countersOk_bump:
  "countersOk r \<Longrightarrow> countersOk (r\<lparr> inFlight := (inFlight r)(c \<mapsto> n + 1) \<rparr>)"
  by (simp add: countersOk_def)

lemma delta_idle:
  assumes "countersOk r" and "\<not> holds1 c t" and "\<And>c'. \<not> holds1 c' t" and "wfTask t"
  shows "delta c r (r\<lparr> tasks := tasks r @ [t] \<rparr>) [t]"
  using assms by (simp add: delta_def)

lemma reactProceed_delta:
  assumes p: "reactProceed c name i mode rm r = (k, r')" and ok: "countersOk r"
  shows "\<exists>new. delta c r r' new \<and> length (tasks r) \<le> k \<and> k < length (tasks r')"
proof (cases "rm = SERVER")
  case True
  obtain t r1 where e: "enter (newTask True c name i (Some CSR) CSR (Settled None)) r = (t, r1)"
    by (cases "enter (newTask True c name i (Some CSR) CSR (Settled None)) r")
  have re: "k_react (newTask True c name i (Some CSR) CSR (Settled None))"
    and ci: "k_componentId (newTask True c name i (Some CSR) CSR (Settled None)) = c"
    by (simp_all add: newTask_def)
  note d = enter_delta [OF e re ok, unfolded ci]
  define p2 where "p2 = newTask True c name i mode rm (AwaitCsrPass (length (tasks r1)))"
  have r': "r' = r1\<lparr> tasks := tasks r1 @ [t, p2] \<rparr>"
    and k: "k = Suc (length (tasks r1))"
    using p True e by (simp_all add: reactProceed_def addTask_def p2_def)
  have np: "\<And>c'. \<not> holds1 c' p2" and wp: "wfTask p2"
    by (simp_all add: p2_def holds1_csrpass wf_csrpass)
  have 1: "tasks r' = tasks r @ [t, p2]" using r' d by simp
  have 2: "\<forall>x \<in> set [t, p2]. wfTask x" using d wp by simp
  have 3: "length (filter (holds1 c) [t, p2]) \<le> 1" using np by simp
  have 4: "\<forall>c'. \<forall>x \<in> set [t, p2]. holds1 c' x \<longrightarrow> c' = c \<and> inFlight r c = None \<and> inFlight r' c \<noteq> None"
    using d np r' by auto
  have 5: "\<forall>c'. c' \<noteq> c \<longrightarrow> inFlight r' c' = inFlight r c'" using d r' by simp
  have 6: "inFlight r c \<noteq> None \<longrightarrow> inFlight r' c \<noteq> None" using d r' by simp
  have 7: "countersOk r'" using d r' by simp
  have "delta c r r' [t, p2]"
    unfolding delta_def using 1 2 3 4 5 6 7 by blast
  moreover have "length (tasks r) \<le> k \<and> k < length (tasks r')" using k 1 d by simp
  ultimately show ?thesis by blast
next
  case False
  obtain t r1 where e: "enter (newTask True c name i mode rm (Settled None)) r = (t, r1)"
    by (cases "enter (newTask True c name i mode rm (Settled None)) r")
  have re: "k_react (newTask True c name i mode rm (Settled None))"
    and ci: "k_componentId (newTask True c name i mode rm (Settled None)) = c"
    by (simp_all add: newTask_def)
  note d = enter_delta [OF e re ok, unfolded ci]
  have r': "r' = r1\<lparr> tasks := tasks r1 @ [t] \<rparr>" and k: "k = length (tasks r1)"
    using p False e by (simp_all add: reactProceed_def addTask_def)
  have 1: "tasks r' = tasks r @ [t]" using r' d by simp
  have 2: "\<forall>x \<in> set [t]. wfTask x" using d by simp
  have 3: "length (filter (holds1 c) [t]) \<le> 1" by simp
  have 4: "\<forall>c'. \<forall>x \<in> set [t]. holds1 c' x \<longrightarrow> c' = c \<and> inFlight r c = None \<and> inFlight r' c \<noteq> None"
    using d r' by auto
  have 5: "\<forall>c'. c' \<noteq> c \<longrightarrow> inFlight r' c' = inFlight r c'" using d r' by simp
  have 6: "inFlight r c \<noteq> None \<longrightarrow> inFlight r' c \<noteq> None" using d r' by simp
  have 7: "countersOk r'" using d r' by simp
  have "delta c r r' [t]"
    unfolding delta_def using 1 2 3 4 5 6 7 by blast
  moreover have "length (tasks r) \<le> k \<and> k < length (tasks r')" using k 1 d by simp
  ultimately show ?thesis by blast
qed

lemma reactCall_delta:
  assumes p: "reactCall c mode r = (k, r')" and ok: "countersOk r"
  shows "\<exists>new. delta c r r' new \<and> length (tasks r) \<le> k \<and> k < length (tasks r')"
proof -
  have idle: "\<exists>new. delta c r r' new \<and> length (tasks r) \<le> k \<and> k < length (tasks r')"
    if r': "r' = r\<lparr> tasks := tasks r @ [t] \<rparr>" and k: "k = length (tasks r)"
      and nh: "\<And>c'. \<not> holds1 c' t" and w: "wfTask t" for t
  proof -
    have "delta c r r' [t]" unfolding r' by (rule delta_idle [OF ok nh nh w])
    then show ?thesis using k r' by auto
  qed
  show ?thesis
  proof (cases "getComponentNameAndId (instanceDao r) c")
    case (Inl e)
    show ?thesis
      by (rule idle [of "newTask True c [] None mode [] (Settled (Some e))"])
         (use p Inl in \<open>simp_all add: reactCall_def addTask_def holds1_settled wf_settled\<close>)
  next
    case (Inr ni)
    obtain name i where ni: "ni = (name, i)" by (cases ni)
    show ?thesis
    proof (cases "getReactorMode mode (reactorConfig r)")
      case (Inl e)
      show ?thesis
        by (rule idle [of "newTask True c name i mode [] (Settled (Some e))"])
           (use p Inr ni Inl in \<open>simp_all add: reactCall_def addTask_def holds1_settled wf_settled\<close>)
    next
      case rm: (Inr rm)
      show ?thesis
      proof (cases "rm = SERVER_WAIT \<and> readKey (inFlight r) c \<noteq> Undefined")
        case True
        define t where "t = newTask True c name i mode rm (Settled None)"
        have nh: "\<And>c'. \<not> holds1 c' t" and w: "wfTask t"
          by (simp_all add: t_def holds1_settled wf_settled)
        show ?thesis
        proof (cases "readKey (inFlight r) c")
          case Undefined
          with True show ?thesis by simp
        next
          case Inherited
          show ?thesis
            by (rule idle [of t])
               (use p Inr ni rm True Inherited nh w in \<open>simp_all add: reactCall_def addTask_def t_def\<close>)
        next
          case (Own n)
          define r0 where "r0 = r\<lparr> inFlight := (inFlight r)(c \<mapsto> n + 1) \<rparr>"
          have ok0: "countersOk r0" unfolding r0_def by (rule countersOk_bump [OF ok])
          have r': "r' = r0\<lparr> tasks := tasks r0 @ [t] \<rparr>" and k: "k = length (tasks r0)"
            using p Inr ni rm True Own by (simp_all add: reactCall_def addTask_def r0_def t_def)
          have "delta c r0 r' [t]" unfolding r' by (rule delta_idle [OF ok0 nh nh w])
          then have "delta c r r' [t]"
            unfolding delta_def by (simp add: r0_def r')
          then show ?thesis using k r' by (auto simp: r0_def)
        qed
      next
        case False
        with p Inr ni rm have "reactProceed c name i mode rm r = (k, r')"
          by (auto simp: reactCall_def split: slot.splits)
        from reactProceed_delta [OF this ok] show ?thesis .
      qed
    qed
  qed
qed

lemma inv_delta:
  assumes i: "inv r" and d: "delta c r r' new"
  shows "inv r'"
proof -
  have cnt: "length (filter (holds1 c') (tasks r')) \<le> (case inFlight r' c' of None \<Rightarrow> 0 | Some n \<Rightarrow> 1)" for c'
  proof (cases "c' = c")
    case False
    with d have "filter (holds1 c') new = []" and "inFlight r' c' = inFlight r c'"
      by (auto simp: delta_def filter_empty_conv)
    with i d show ?thesis by (simp add: inv_def delta_def)
  next
    case True
    show ?thesis
    proof (cases "filter (holds1 c) new = []")
      case e: True
      have "length (filter (holds1 c) (tasks r)) \<le> (case inFlight r c of None \<Rightarrow> 0 | Some n \<Rightarrow> 1)"
        using i by (simp add: inv_def)
      moreover have "(case inFlight r c of None \<Rightarrow> 0 | Some n \<Rightarrow> 1)
                 \<le> (case inFlight r' c of None \<Rightarrow> 0 | Some n \<Rightarrow> (1::nat))"
        using d by (auto simp: delta_def split: option.splits)
      ultimately show ?thesis using d e True by (simp add: delta_def)
    next
      case ne: False
      then obtain t where t: "t \<in> set new" "holds1 c t"
        by (auto simp: filter_empty_conv)
      with d have n: "inFlight r c = None" and s: "inFlight r' c \<noteq> None"
        by (auto simp: delta_def)
      from i n have "length (filter (holds1 c) (tasks r)) = 0"
        by (simp add: inv_def) (metis le_zero_eq length_0_conv option.simps(4))
      moreover have "length (filter (holds1 c) new) \<le> 1" using d by (simp add: delta_def)
      ultimately show ?thesis using d s True by (auto simp: delta_def)
    qed
  qed
  have wf: "\<forall>t \<in> set (tasks r'). wfTask t"
    using i d by (auto simp: inv_def delta_def)
  show ?thesis unfolding inv_def using cnt wf d by (simp add: delta_def)
qed

lemma inv_put:
  assumes i: "inv r" and k: "k < length (tasks r)"
    and fr: "tasks r' = tasks r" "inFlight r' = inFlight r"
    and co: "countersOk r'"
    and w: "wfTask t'"
    and h: "\<And>c. holds1 c t' \<Longrightarrow> holds1 c (tasks r ! k)"
  shows "inv (putTask k (t', r'))"
proof -
  have cnt: "length (filter (holds1 c) ((tasks r)[k := t'])) \<le> (case inFlight r c of None \<Rightarrow> 0 | Some n \<Rightarrow> 1)" for c
  proof -
    have "length (filter (holds1 c) ((tasks r)[k := t'])) \<le> length (filter (holds1 c) (tasks r))"
      using count_update [OF k, of "holds1 c" t'] h [of c] by (auto split: if_splits)
    with i show ?thesis unfolding inv_def by (meson le_trans)
  qed
  have wf: "\<forall>t \<in> set ((tasks r)[k := t']). wfTask t"
    using i w by (auto simp: inv_def dest!: set_update_subset_insert [THEN subsetD])
  show ?thesis
    unfolding inv_def putTask_def using cnt wf co fr by simp
qed

lemma wf_same:
  assumes "wfTask t" "sameCall t t'" "tryPc (k_pc t)" "tryPc (k_pc t')"
    "\<forall>x. k_pc t' \<noteq> AwaitFetch x"
  shows "wfTask t'"
  using assms by (auto simp: wfTask_def sameCall_def split: option.splits if_splits)

lemma wf_pc:
  assumes "wfTask t" "tryPc p \<longrightarrow> tryPc (k_pc t)"
    "(\<exists>x. p = AwaitFetch x) \<longrightarrow> (\<exists>y. k_pc t = AwaitFetch y)" "\<forall>c. p \<noteq> AwaitCsrPass c"
  shows "wfTask (t\<lparr> k_pc := p \<rparr>)"
  using assms by (auto simp: wfTask_def split: option.splits if_splits)

lemma holds1_same:
  assumes "sameCall t t'" "tryPc (k_pc t)"
  shows "holds1 c t' \<Longrightarrow> holds1 c t"
  using assms by (auto simp: holds1_def sameCall_def)

lemma inv_resume_frame:
  assumes i: "inv r" and k: "k < length (tasks r)"
    and f: "sameCall (tasks r ! k) t' \<and> tryPc (k_pc t') \<and> (\<forall>x. k_pc t' \<noteq> AwaitFetch x) \<and>
         inFlight r' = inFlight r \<and> tasks r' = tasks r \<and> fetches r' = fetches r"
    and tp: "tryPc (k_pc (tasks r ! k))"
  shows "inv (putTask k (t', r'))"
proof (rule inv_put [OF i k])
  show "tasks r' = tasks r" "inFlight r' = inFlight r" using f by simp_all
  show "countersOk r'" using i f by (simp add: inv_def countersOk_def)
  have "wfTask (tasks r ! k)" using i k by (simp add: inv_def)
  then show "wfTask t'" using f tp by (auto intro: wf_same)
  show "\<And>c. holds1 c t' \<Longrightarrow> holds1 c (tasks r ! k)"
    using f tp by (auto intro: holds1_same)
qed

lemma inv_dao [simp]: "inv (r\<lparr> instanceDao := d \<rparr>) = inv r"
  by (simp add: inv_def countersOk_def)

lemma inv_set_pc:
  assumes i: "inv r" and k: "k < length (tasks r)"
    and p: "tryPc p \<longrightarrow> tryPc (k_pc (tasks r ! k))"
      "(\<exists>x. p = AwaitFetch x) \<longrightarrow> (\<exists>y. k_pc (tasks r ! k) = AwaitFetch y)"
      "\<forall>c. p \<noteq> AwaitCsrPass c"
  shows "inv (putTask k ((tasks r ! k)\<lparr> k_pc := p \<rparr>, r\<lparr> instanceDao := d \<rparr>))"
proof (rule inv_put [OF i k])
  show "tasks (r\<lparr> instanceDao := d \<rparr>) = tasks r" "inFlight (r\<lparr> instanceDao := d \<rparr>) = inFlight r"
    by simp_all
  show "countersOk (r\<lparr> instanceDao := d \<rparr>)" using i by (simp add: inv_def countersOk_def)
  have "wfTask (tasks r ! k)" using i k by (simp add: inv_def)
  then show "wfTask ((tasks r ! k)\<lparr> k_pc := p \<rparr>)" using p by (rule wf_pc)
  show "\<And>c. holds1 c ((tasks r ! k)\<lparr> k_pc := p \<rparr>) \<Longrightarrow> holds1 c (tasks r ! k)"
    using p by (auto simp: holds1_def)
qed

lemma inv_set_pc':
  assumes i: "inv r" and k: "k < length (tasks r)"
    and p: "tryPc p \<longrightarrow> tryPc (k_pc (tasks r ! k))"
      "(\<exists>x. p = AwaitFetch x) \<longrightarrow> (\<exists>y. k_pc (tasks r ! k) = AwaitFetch y)"
      "\<forall>c. p \<noteq> AwaitCsrPass c"
  shows "inv (putTask k ((tasks r ! k)\<lparr> k_pc := p \<rparr>, r))"
  using inv_set_pc [OF i k p, of "instanceDao r"] by simp

lemma inv_enter_put:
  assumes i: "inv r" and k: "k < length (tasks r)"
    and pc: "k_pc (tasks r ! k) = AwaitCsrPass child"
    and e: "enter (tasks r ! k) r = (t', r')"
  shows "inv (putTask k (t', r'))"
proof -
  define old where "old = tasks r ! k"
  have wo: "wfTask old" using i k by (simp add: inv_def old_def)
  with pc have re: "k_react old" by (auto simp: wfTask_def old_def split: if_splits)
  have ok: "countersOk r" using i by (simp add: inv_def)
  note d = enter_delta [OF e [folded old_def] re ok]
  have noh: "\<And>c. \<not> holds1 c old" using pc by (simp add: holds1_def old_def)
  have cnt: "length (filter (holds1 c) ((tasks r)[k := t']))
               \<le> (case inFlight r' c of None \<Rightarrow> 0 | Some n \<Rightarrow> 1)" for c
  proof -
    have eq: "length (filter (holds1 c) ((tasks r)[k := t']))
               = length (filter (holds1 c) (tasks r)) + (if holds1 c t' then 1 else 0)"
      using count_update [OF k, of "holds1 c" t'] noh [of c] by (simp add: old_def)
    have le: "length (filter (holds1 c) (tasks r)) \<le> (case inFlight r c of None \<Rightarrow> 0 | Some n \<Rightarrow> 1)"
      using i by (simp add: inv_def)
    show ?thesis
    proof (cases "holds1 c t'")
      case True
      with d have c: "c = k_componentId old" and n: "inFlight r c = None" by auto
      from le n have "length (filter (holds1 c) (tasks r)) = 0" by simp
      moreover from d True have "inFlight r' c \<noteq> None" by blast
      ultimately show ?thesis using eq True by auto
    next
      case False
      have "(case inFlight r c of None \<Rightarrow> 0 | Some n \<Rightarrow> 1)
                 \<le> (case inFlight r' c of None \<Rightarrow> 0 | Some n \<Rightarrow> (1::nat))"
        using d by (cases "c = k_componentId old") (auto split: option.splits)
      with le eq False show ?thesis by simp
    qed
  qed
  have wf: "\<forall>t \<in> set ((tasks r)[k := t']). wfTask t"
    using i d by (auto simp: inv_def dest!: set_update_subset_insert [THEN subsetD])
  show ?thesis
    unfolding inv_def putTask_def using cnt wf d by simp
qed

lemma inv_finally:
  assumes i: "inv r" and k: "k < length (tasks r)"
    and pc: "k_pc (tasks r ! k) = AwaitRun res" and re: "k_react (tasks r ! k)"
  shows "inv (reactFinally k (tasks r ! k) res r)"
proof (cases "k_requestSerial (tasks r ! k) = Some 1")
  case False
  then have "reactFinally k (tasks r ! k) res r = putTask k ((tasks r ! k)\<lparr> k_pc := Settled res \<rparr>, r)"
    by (simp add: reactFinally_def putTask_def Let_def)
  then show ?thesis using inv_set_pc' [OF i k, of "Settled res"] by simp
next
  case True
  define t where "t = tasks r ! k"
  define c where "c = k_componentId t"
  define r1 where "r1 = r\<lparr> inFlight := (inFlight r)(c := None) \<rparr>"
  have ht: "holds1 c t" using True pc re by (simp add: holds1_def t_def c_def)
  have ok1: "countersOk r1" using i by (auto simp: inv_def countersOk_def r1_def)
  have wt: "wfTask t" using i k by (simp add: inv_def t_def)
  have cle: "length (filter (holds1 c') (tasks r)) \<le> (case inFlight r c' of None \<Rightarrow> 0 | Some n \<Rightarrow> 1)" for c'
    using i by (simp add: inv_def)
  have upd: "length (filter (holds1 c') ((tasks r)[k := t\<lparr> k_pc := p \<rparr>]))
         \<le> (case inFlight r1 c' of None \<Rightarrow> 0 | Some n \<Rightarrow> 1)"
    if np: "\<not> tryPc p" for c' p
  proof (cases "c' = c")
    case True
    have "\<not> holds1 c (t\<lparr> k_pc := p \<rparr>)" using np by (simp add: holds1_def)
    with count_update [OF k, of "holds1 c" "t\<lparr> k_pc := p \<rparr>"] ht
    have "length (filter (holds1 c) ((tasks r)[k := t\<lparr> k_pc := p \<rparr>])) + 1
            = length (filter (holds1 c) (tasks r))" by (simp add: t_def)
    moreover have "length (filter (holds1 c) (tasks r)) \<le> 1"
      using cle [of c] by (auto split: option.splits)
    ultimately show ?thesis using True by simp
  next
    case False
    have "\<not> holds1 c' (t\<lparr> k_pc := p \<rparr>)" "\<not> holds1 c' t"
      using False by (simp_all add: holds1_def c_def)
    with count_update [OF k, of "holds1 c'" "t\<lparr> k_pc := p \<rparr>"]
    have "length (filter (holds1 c') ((tasks r)[k := t\<lparr> k_pc := p \<rparr>]))
            = length (filter (holds1 c') (tasks r))" by (simp add: t_def)
    with cle [of c'] False show ?thesis by (simp add: r1_def)
  qed
  have wfu: "\<forall>x \<in> set ((tasks r)[k := t\<lparr> k_pc := p \<rparr>]). wfTask x"
    if np: "\<not> tryPc p" "\<forall>x. p \<noteq> AwaitCsrPass x" for p
  proof -
    have "wfTask (t\<lparr> k_pc := p \<rparr>)"
      using wt np by (intro wf_pc) (auto elim: tryPc.elims)
    then show ?thesis
      using i by (auto simp: inv_def dest!: set_update_subset_insert [THEN subsetD])
  qed
  show ?thesis
  proof (cases "k_reactorMode t \<noteq> CSR \<and> (case inFlight r c of None \<Rightarrow> False | Some n \<Rightarrow> n > 1)")
    case False
    then have eq: "reactFinally k (tasks r ! k) res r
             = r1\<lparr> tasks := (tasks r)[k := t\<lparr> k_pc := Settled res \<rparr>] \<rparr>"
      using True by (auto simp: reactFinally_def Let_def t_def [symmetric] c_def [symmetric] r1_def)
    show ?thesis
      unfolding eq inv_def using upd [of "Settled res"] wfu [of "Settled res"] ok1 by simp
  next
    case respawn: True
    obtain child r2 where rc: "reactCall c (k_mode t) r1 = (child, r2)"
      by (cases "reactCall c (k_mode t) r1")
    from reactCall_delta [OF rc ok1] obtain new where
      d: "delta c r1 r2 new" by blast
    define p where "p = AwaitRespawn child res"
    have np: "\<not> tryPc p" "\<forall>x. p \<noteq> AwaitCsrPass x" by (simp_all add: p_def)
    have eq: "reactFinally k (tasks r ! k) res r
             = r2\<lparr> tasks := (tasks r2)[k := t\<lparr> k_pc := p \<rparr>] \<rparr>"
      using True respawn rc
      by (simp add: reactFinally_def Let_def t_def [symmetric] c_def [symmetric]
            r1_def [symmetric] p_def)
    have ts: "(tasks r2)[k := t\<lparr> k_pc := p \<rparr>] = (tasks r)[k := t\<lparr> k_pc := p \<rparr>] @ new"
      using d k by (simp add: delta_def r1_def list_update_append1)
    have n1: "inFlight r1 c = None" by (simp add: r1_def)
    have cnt: "length (filter (holds1 c') ((tasks r)[k := t\<lparr> k_pc := p \<rparr>] @ new))
                 \<le> (case inFlight r2 c' of None \<Rightarrow> 0 | Some n \<Rightarrow> 1)" for c'
    proof (cases "c' = c")
      case False
      with d have "filter (holds1 c') new = []" and "inFlight r2 c' = inFlight r1 c'"
        by (auto simp: delta_def filter_empty_conv)
      with upd [OF np(1), of c'] show ?thesis by simp
    next
      case True
      have z: "length (filter (holds1 c) ((tasks r)[k := t\<lparr> k_pc := p \<rparr>])) = 0"
        using upd [OF np(1), of c] n1 by simp
      show ?thesis
      proof (cases "filter (holds1 c) new = []")
        case True
        with z \<open>c' = c\<close> show ?thesis by simp
      next
        case False
        then obtain x where "x \<in> set new" "holds1 c x" by (auto simp: filter_empty_conv)
        with d have "inFlight r2 c \<noteq> None" by (auto simp: delta_def)
        moreover have "length (filter (holds1 c) new) \<le> 1" using d by (simp add: delta_def)
        ultimately show ?thesis using z \<open>c' = c\<close> by auto
      qed
    qed
    have wf: "\<forall>x \<in> set ((tasks r)[k := t\<lparr> k_pc := p \<rparr>] @ new). wfTask x"
      using wfu [OF np] d by (auto simp: delta_def)
    show ?thesis
      unfolding eq ts inv_def using cnt wf d by (simp add: delta_def)
  qed
qed

lemma inv_add_idle:
  assumes i: "inv r" and w: "wfTask t" and nh: "\<And>c. \<not> holds1 c t"
    and fr: "tasks r' = tasks r" "inFlight r' = inFlight r" "countersOk r'"
  shows "inv (snd (addTask t r'))"
  using assms by (simp add: inv_def addTask_def)

lemma inv_start:
  assumes i: "inv r"
  shows "inv (snd (startCall container cname ci vs mode r))"
proof -
  define c where "c = getComponentId cname ci"
  define r1 where "r1 = r\<lparr> reactorRoot := Some (''fusewire_'' @ c),
                  appended := appended r @ [(container, ''fusewire_'' @ c)] \<rparr>"
  have i1: "inv r1" using i by (simp add: inv_def r1_def countersOk_def)
  show ?thesis
  proof (cases "getReactorMode mode (reactorConfig r1)")
    case (Inl e)
    have "inv (snd (addTask (newTask False c cname ci mode [] (Settled (Some e))) r1))"
      by (rule inv_add_idle [OF i1]) (use i1 in \<open>simp_all add: wfTask_def newTask_def holds1_def inv_def\<close>)
    then show ?thesis using Inl by (simp add: startCall_def Let_def c_def r1_def)
  next
    case (Inr rm)
    define t0 where "t0 = newTask False c cname ci mode rm (Settled None)"
    obtain t r2 where rs: "runStart (Some []) t0 r1 = (t, r2)"
      by (cases "runStart (Some []) t0 r1")
    note f = runStart_frame [OF rs]
    have nr: "\<not> k_react t" "k_requestSerial t = None"
      using f by (simp_all add: sameCall_def t0_def newTask_def)
    have w: "wfTask t" using nr f by (auto simp: wfTask_def elim: tryPc.elims)
    have nh: "\<And>c. \<not> holds1 c t" using nr by (simp add: holds1_def)
    have co: "countersOk r2"
      using i1 f by (auto simp: inv_def countersOk_def sameCall_def t0_def newTask_def)
    have "inv (snd (addTask t r2))"
      by (rule inv_add_idle [OF i1 w nh]) (use f co in simp_all)
    then show ?thesis using Inr rs by (simp add: startCall_def Let_def c_def r1_def t0_def)
  qed
qed

lemma inv_react:
  assumes i: "inv r"
  shows "inv (snd (reactCall c mode r))"
proof -
  obtain k r' where rc: "reactCall c mode r = (k, r')" by (cases "reactCall c mode r")
  from i have "countersOk r" by (simp add: inv_def)
  from reactCall_delta [OF rc this] obtain new where "delta c r r' new" by blast
  from inv_delta [OF i this] rc show ?thesis by simp
qed

lemma inv_resume:
  assumes i: "inv r" and k: "k < length (tasks r)" and s: "resume co k (tasks r ! k) r = Some r'"
  shows "inv r'"
proof (cases "k_pc (tasks r ! k)")
  case (AwaitCsrPass child)
  show ?thesis
  proof (cases "settled r child")
    case None
    with s AwaitCsrPass show ?thesis by (simp add: resume_def)
  next
    case (Some x)
    show ?thesis
    proof (cases x)
      case None
      obtain t' r1 where e: "enter (tasks r ! k) r = (t', r1)" by (cases "enter (tasks r ! k) r")
      from inv_enter_put [OF i k AwaitCsrPass e] s AwaitCsrPass Some None e
      show ?thesis by (simp add: resume_def)
    next
      case (Some e)
      from inv_set_pc' [OF i k, of "Settled (Some e)"] s AwaitCsrPass \<open>settled r child = Some x\<close> Some
      show ?thesis by (simp add: resume_def)
    qed
  qed
next
  case (AwaitFetch x)
  show ?thesis
  proof (cases x)
    case None
    with s AwaitFetch show ?thesis by (simp add: resume_def)
  next
    case (Some y)
    show ?thesis
    proof (cases y)
      case (Inl e)
      from inv_set_pc' [OF i k, of "AwaitRun (Some e)"] s AwaitFetch Some Inl
      show ?thesis by (simp add: resume_def)
    next
      case (Inr resp)
      obtain t' r1 where e: "afterFetch resp (tasks r ! k) r = (t', r1)"
        by (cases "afterFetch resp (tasks r ! k) r")
      from inv_resume_frame [OF i k afterFetch_frame [OF e]] s AwaitFetch Some Inr e
      show ?thesis by (simp add: resume_def)
    qed
  qed
next
  case (AwaitTemplateFetch stored)
  with s show ?thesis by (simp add: resume_def)
next
  case (AwaitTemplate x)
  show ?thesis
  proof (cases x)
    case (Inl e)
    from inv_set_pc' [OF i k, of "AwaitRun (Some e)"] s AwaitTemplate Inl
    show ?thesis by (simp add: resume_def)
  next
    case (Inr tm)
    obtain t' r1 where e: "runDao co tm (tasks r ! k) r = (t', r1)"
      by (cases "runDao co tm (tasks r ! k) r")
    from inv_resume_frame [OF i k runDao_frame [OF e]] s AwaitTemplate Inr e
    show ?thesis by (simp add: resume_def)
  qed
next
  case (AwaitDao x)
  show ?thesis
  proof (cases x)
    case None
    obtain t' r1 where e: "runRender co (tasks r ! k) r = (t', r1)"
      by (cases "runRender co (tasks r ! k) r")
    from inv_resume_frame [OF i k runRender_frame [OF e]] s AwaitDao None e
    show ?thesis by (simp add: resume_def)
  next
    case (Some e)
    from inv_set_pc' [OF i k, of "AwaitRun (Some e)"] s AwaitDao Some
    show ?thesis by (simp add: resume_def)
  qed
next
  case (AwaitRun res)
  show ?thesis
  proof (cases "k_react (tasks r ! k)")
    case True
    from inv_finally [OF i k AwaitRun True] s AwaitRun True
    show ?thesis by (simp add: resume_def)
  next
    case False
    from inv_set_pc' [OF i k, of "Settled res"] s AwaitRun False
    show ?thesis by (simp add: resume_def)
  qed
next
  case (AwaitRespawn child res)
  show ?thesis
  proof (cases "settled r child")
    case None
    with s AwaitRespawn show ?thesis by (simp add: resume_def)
  next
    case (Some x)
    show ?thesis
    proof (cases x)
      case None
      from inv_set_pc' [OF i k, of "Settled res"] s AwaitRespawn \<open>settled r child = Some x\<close> None
      show ?thesis by (simp add: resume_def)
    next
      case (Some e)
      from inv_set_pc' [OF i k, of "Settled (Some e)"] s AwaitRespawn \<open>settled r child = Some x\<close> Some
      show ?thesis by (simp add: resume_def)
    qed
  qed
next
  case (Settled res)
  with s show ?thesis by (simp add: resume_def)
qed

lemma inv_step:
  assumes i: "inv r" and s: "step co ev r = Some r'"
  shows "inv r'"
proof (cases ev)
  case (React c mode)
  with s inv_react [OF i, of c mode] show ?thesis by (simp add: step_def)
next
  case (Start container cname ci vs mode)
  with s inv_start [OF i, of container cname ci vs mode] show ?thesis by (simp add: step_def)
next
  case (Resume k)
  with s have k: "k < length (tasks r)" and "resume co k (tasks r ! k) r = Some r'"
    by (auto simp: step_def split: if_splits)
  from inv_resume [OF i this] show ?thesis .
next
  case (FetchDone k answer)
  with s have k: "k < length (tasks r)" and pc: "k_pc (tasks r ! k) = AwaitFetch None"
    by (auto simp: step_def split: if_splits)
  show ?thesis
  proof (cases answer)
    case (Inl e)
    from inv_set_pc' [OF i k, of "AwaitFetch (Some (Inl e))"] s FetchDone k pc Inl
    show ?thesis by (simp add: step_def)
  next
    case (Inr p)
    obtain resp templates where p: "p = (resp, templates)" by (cases p)
    from inv_set_pc [OF i k, of "AwaitFetch (Some (Inr resp))"
           "fold (\<lambda>tr d. snd (setFromTemplateResponse tr d)) templates (instanceDao r)"]
         s FetchDone k pc Inr p
    show ?thesis by (simp add: step_def)
  qed
next
  case (TemplateDone k answer)
  with s have k: "k < length (tasks r)"
    by (auto simp: step_def split: if_splits)
  from s TemplateDone k obtain stored where pc: "k_pc (tasks r ! k) = AwaitTemplateFetch stored"
    by (auto simp: step_def split: pc.splits)
  obtain res d where g: "getOrFetchEnd stored answer (instanceDao r) = (res, d)"
    by (cases "getOrFetchEnd stored answer (instanceDao r)")
  from inv_set_pc [OF i k, of "AwaitTemplate res" d] s TemplateDone k pc g
  show ?thesis by (simp add: step_def)
next
  case (Mutate c key v)
  with s i show ?thesis by (auto simp: step_def)
next
  case (Remove c)
  with s i show ?thesis by (auto simp: step_def)
next
  case Flush
  with s i show ?thesis by (auto simp: step_def)
next
  case (Background j)
  with s i show ?thesis by (auto simp: step_def split: option.splits)
qed

lemma inv_run:
  assumes "inv r" and "run co evs r = Some r'"
  shows "inv r'"
  using assms
proof (induction evs arbitrary: r)
  case Nil
  then show ?case by simp
next
  case (Cons ev evs)
  from Cons.prems obtain r1 where s: "step co ev r = Some r1" and r: "run co evs r1 = Some r'"
    by (auto split: option.splits)
  from Cons.IH [OF inv_step [OF Cons.prems(1) s] r] show ?case .
qed

lemma idle_inv: "idle r \<Longrightarrow> inv r"
  by (simp add: idle_def inv_def countersOk_def)

text \<open>
  C1, for the calls of \<^verbatim>\<open>react\<close> and for a componentId that does not name a property every
  object inherits: in every state the reactor reaches from a state without calls, whatever the
  application and the server do, at most one call of \<^verbatim>\<open>react\<close> for the componentId has a
  component exchange outstanding.  Every call of \<^verbatim>\<open>react\<close> whose serial number is above 1
  runs in the effective mode CSR and waits for no exchange; a call of \<^verbatim>\<open>react\<close> for such a
  componentId that waits for an exchange has serial number 1; and every exchange that was
  sent with a serial number was sent with serial number 1.  The exchanges of \<^verbatim>\<open>start\<close>, and
  those of \<^verbatim>\<open>react\<close> under a componentId that names an inherited property, carry no serial
  number and are not bounded.
\<close>

lemma filter_length_mono:
  "(\<And>x. x \<in> set xs \<Longrightarrow> P x \<Longrightarrow> Q x) \<Longrightarrow> length (filter P xs) \<le> length (filter Q xs)"
  by (induction xs) (auto simp: le_SucI)

theorem one_react_exchange_per_component:
  assumes "idle r0" and "run co evs r0 = Some r"
  shows "(componentId \<notin> set objectPrototypeKeys \<longrightarrow>
            length (filter (outstanding componentId) (tasks r)) \<le> 1) \<and>
         (\<forall>t \<in> set (tasks r). \<forall>n. k_react t \<and> k_requestSerial t = Some n \<and> 1 < n \<longrightarrow>
              k_reactorMode t = CSR \<and> (\<forall>x. k_pc t \<noteq> AwaitFetch x)) \<and>
         (\<forall>t \<in> set (tasks r). \<forall>x. k_react t \<and> k_componentId t \<notin> set objectPrototypeKeys \<and>
              k_pc t = AwaitFetch x \<longrightarrow> k_requestSerial t = Some 1) \<and>
         (\<forall>sf \<in> set (fetches r). \<forall>n. fst sf = Some n \<longrightarrow> n = 1)"
proof -
  have i: "inv r" using assms by (auto intro: inv_run idle_inv)
  have wf: "\<And>t. t \<in> set (tasks r) \<Longrightarrow> wfTask t" using i by (simp add: inv_def)
  have one: "length (filter (outstanding componentId) (tasks r)) \<le> 1"
    if plain: "componentId \<notin> set objectPrototypeKeys"
  proof -
    have "\<And>t. t \<in> set (tasks r) \<Longrightarrow> outstanding componentId t \<Longrightarrow> holds1 componentId t"
    proof -
      fix t assume t: "t \<in> set (tasks r)" and o: "outstanding componentId t"
      from wf [OF t] o plain show "holds1 componentId t"
        by (auto simp: wfTask_def outstanding_def holds1_def split: option.splits if_splits)
    qed
    then have "length (filter (outstanding componentId) (tasks r))
                 \<le> length (filter (holds1 componentId) (tasks r))"
      by (rule filter_length_mono)
    moreover have "length (filter (holds1 componentId) (tasks r))
                     \<le> (case inFlight r componentId of None \<Rightarrow> 0 | Some n \<Rightarrow> 1)"
      using i unfolding inv_def by blast
    moreover have "(case inFlight r componentId of None \<Rightarrow> 0 | Some n \<Rightarrow> 1) \<le> (1::nat)"
      by (simp split: option.splits)
    ultimately show ?thesis by linarith
  qed
  have ser: "\<forall>t \<in> set (tasks r). \<forall>n. k_react t \<and> k_requestSerial t = Some n \<and> 1 < n \<longrightarrow>
              k_reactorMode t = CSR \<and> (\<forall>x. k_pc t \<noteq> AwaitFetch x)"
  proof (intro ballI allI impI)
    fix t n
    assume t: "t \<in> set (tasks r)" and h: "k_react t \<and> k_requestSerial t = Some n \<and> 1 < n"
    from wf [OF t] h show "k_reactorMode t = CSR \<and> (\<forall>x. k_pc t \<noteq> AwaitFetch x)"
      by (auto simp: wfTask_def)
  qed
  have s1: "\<forall>t \<in> set (tasks r). \<forall>x. k_react t \<and> k_componentId t \<notin> set objectPrototypeKeys \<and>
              k_pc t = AwaitFetch x \<longrightarrow> k_requestSerial t = Some 1"
  proof (intro ballI allI impI)
    fix t x
    assume t: "t \<in> set (tasks r)"
      and h: "k_react t \<and> k_componentId t \<notin> set objectPrototypeKeys \<and> k_pc t = AwaitFetch x"
    from wf [OF t] h show "k_requestSerial t = Some 1"
      by (auto simp: wfTask_def split: option.splits if_splits)
  qed
  have fe: "\<forall>sf \<in> set (fetches r). \<forall>n. fst sf = Some n \<longrightarrow> n = 1"
    using i by (auto simp: inv_def countersOk_def)
  from one ser s1 fe show ?thesis by (intro conjI impI)
qed

lemma secondSettled_run:
  "map_option (\<lambda>r. (map (\<lambda>t. (k_reactorMode t, k_requestSerial t, k_pc t)) (tasks r),
                     inFlight r ''counter'',
                     map (\<lambda>sf. (fst sf, f_mode (snd sf), f_vars (snd sf))) (fetches r)))
     (run counterCollab secondSettled counterReactor)
   = Some ([(CSR, Some 1, Settled None), (SERVER, Some 1, AwaitFetch None),
            (CSR, Some 2, Settled None), (CSR, Some 3, Settled None)],
           Some 3,
           [(Some 1, SERVER, [(''count'', JNum 0)])])"
  by code_simp

theorem one_react_exchange_per_component_witness:
  "idle counterReactor \<and> ''counter'' \<notin> set objectPrototypeKeys \<and>
   (\<exists>r. run counterCollab secondSettled counterReactor = Some r \<and>
        length (filter (outstanding ''counter'') (tasks r)) \<le> 1 \<and>
        map (\<lambda>t. (k_reactorMode t, k_requestSerial t, k_pc t)) (tasks r)
          = [(CSR, Some 1, Settled None), (SERVER, Some 1, AwaitFetch None),
             (CSR, Some 2, Settled None), (CSR, Some 3, Settled None)] \<and>
        map fst (fetches r) = [Some 1])"
proof -
  have idl: "idle counterReactor" by (simp add: idle_def counterReactor_def)
  have pl: "''counter'' \<notin> set objectPrototypeKeys" by (simp add: objectPrototypeKeys_def)
  from secondSettled_run obtain r where
    r: "run counterCollab secondSettled counterReactor = Some r" and
    ts: "map (\<lambda>t. (k_reactorMode t, k_requestSerial t, k_pc t)) (tasks r)
          = [(CSR, Some 1, Settled None), (SERVER, Some 1, AwaitFetch None),
             (CSR, Some 2, Settled None), (CSR, Some 3, Settled None)]" and
    fs: "map (\<lambda>sf. (fst sf, f_mode (snd sf), f_vars (snd sf))) (fetches r)
          = [(Some 1, SERVER, [(''count'', JNum 0)])]"
    by auto
  from fs have "map fst (map (\<lambda>sf. (fst sf, f_mode (snd sf), f_vars (snd sf))) (fetches r)) = [Some 1]"
    by simp
  then have f1: "map fst (fetches r) = [Some 1]" by (simp add: comp_def)
  from one_react_exchange_per_component [OF idl r, of "''counter''", THEN conjunct1] pl
  have one: "length (filter (outstanding ''counter'') (tasks r)) \<le> 1" by (rule mp)
  show ?thesis
    by (intro conjI exI [of _ r]) (fact idl pl r one ts f1)+
qed

text \<open>
  The claim as stated fails, because \<^verbatim>\<open>start\<close> runs the unit of work without the counter:
  two calls of \<open>start\<close> for the same component in mode SERVER leave two exchanges for one
  componentId outstanding at the same time, and so do a call of \<open>react\<close> and a call of
  \<open>start\<close>.  It also fails for calls of \<open>react\<close> under a componentId that names an
  inherited property, where the counter never becomes a number: two calls of
  \<open>react("valueOf", SSR)\<close> both send their exchange.
\<close>

lemma two_exchanges_run:
  "(case run counterCollab [Start ''body'' ''counter'' None None (Some SERVER),
                            Start ''body'' ''counter'' None None (Some SERVER)] counterReactor of
      None \<Rightarrow> False
    | Some r \<Rightarrow>
        map (\<lambda>t. (k_react t, k_componentId t, k_pc t)) (tasks r)
          = [(False, ''counter'', AwaitFetch None), (False, ''counter'', AwaitFetch None)] \<and>
        map (\<lambda>sf. (fst sf, f_componentId (snd sf))) (fetches r)
          = [(None, ''counter''), (None, ''counter'')]) \<and>
   (case run counterCollab [React ''counter'' (Some SSR),
                            Start ''body'' ''counter'' None None (Some SERVER)] counterReactor of
      None \<Rightarrow> False
    | Some r \<Rightarrow>
        map (\<lambda>t. (k_react t, k_componentId t, k_pc t)) (tasks r)
          = [(True, ''counter'', AwaitFetch None), (False, ''counter'', AwaitFetch None)] \<and>
        map (\<lambda>sf. (fst sf, f_componentId (snd sf))) (fetches r)
          = [(Some 1, ''counter''), (None, ''counter'')]) \<and>
   (case run counterCollab [React ''valueOf'' (Some SSR), React ''valueOf'' (Some SSR)]
           valueOfReactor of
      None \<Rightarrow> False
    | Some r \<Rightarrow>
        map (\<lambda>t. (k_react t, k_componentId t, k_pc t)) (tasks r)
          = [(True, ''valueOf'', AwaitFetch None), (True, ''valueOf'', AwaitFetch None)] \<and>
        length (filter (outstanding ''valueOf'') (tasks r)) = 2 \<and>
        map (\<lambda>sf. (fst sf, f_componentId (snd sf))) (fetches r)
          = [(None, ''valueOf''), (None, ''valueOf'')])"
  by code_simp

theorem two_exchanges_outstanding_counterexample:
  "idle counterReactor \<and> idle valueOfReactor \<and>
   (case run counterCollab [Start ''body'' ''counter'' None None (Some SERVER),
                            Start ''body'' ''counter'' None None (Some SERVER)] counterReactor of
      None \<Rightarrow> False
    | Some r \<Rightarrow>
        map (\<lambda>t. (k_react t, k_componentId t, k_pc t)) (tasks r)
          = [(False, ''counter'', AwaitFetch None), (False, ''counter'', AwaitFetch None)] \<and>
        map (\<lambda>sf. (fst sf, f_componentId (snd sf))) (fetches r)
          = [(None, ''counter''), (None, ''counter'')]) \<and>
   (case run counterCollab [React ''counter'' (Some SSR),
                            Start ''body'' ''counter'' None None (Some SERVER)] counterReactor of
      None \<Rightarrow> False
    | Some r \<Rightarrow>
        map (\<lambda>t. (k_react t, k_componentId t, k_pc t)) (tasks r)
          = [(True, ''counter'', AwaitFetch None), (False, ''counter'', AwaitFetch None)] \<and>
        map (\<lambda>sf. (fst sf, f_componentId (snd sf))) (fetches r)
          = [(Some 1, ''counter''), (None, ''counter'')]) \<and>
   (case run counterCollab [React ''valueOf'' (Some SSR), React ''valueOf'' (Some SSR)]
           valueOfReactor of
      None \<Rightarrow> False
    | Some r \<Rightarrow>
        map (\<lambda>t. (k_react t, k_componentId t, k_pc t)) (tasks r)
          = [(True, ''valueOf'', AwaitFetch None), (True, ''valueOf'', AwaitFetch None)] \<and>
        length (filter (outstanding ''valueOf'') (tasks r)) = 2 \<and>
        map (\<lambda>sf. (fst sf, f_componentId (snd sf))) (fetches r)
          = [(None, ''valueOf''), (None, ''valueOf'')])"
proof -
  have i1: "idle counterReactor" by (simp add: idle_def counterReactor_def)
  have i2: "idle valueOfReactor" by (simp add: idle_def valueOfReactor_def counterReactor_def)
  from i1 i2 two_exchanges_run show ?thesis by (intro conjI) (simp_all only:)
qed

subsection \<open>A waiting call behind an outstanding one\<close>

text \<open>
  C3: when the in-flight counter of a componentId is present, a \<open>react\<close> call on that
  (tracked) instance whose mode resolves to \<open>SERVER_WAIT\<close> does one thing to the reactor:
  it increments the counter.  The call is recorded as settled at once, without a serial
  number; the instance registry (records and variable values), the templates and the list
  of remote exchanges are those of the state before the call.
\<close>

theorem server_wait_is_dropped:
  assumes "inFlight r componentId = Some n"
    and "getComponentNameAndId (instanceDao r) componentId = Inr (name, i)"
    and "getReactorMode mode (reactorConfig r) = Inr SERVER_WAIT"
  shows "step co (React componentId mode) r =
           Some (r\<lparr> inFlight := (inFlight r)(componentId \<mapsto> n + 1),
                    tasks := tasks r @ [newTask True componentId name i mode SERVER_WAIT (Settled None)] \<rparr>) \<and>
         (\<forall>r'. step co (React componentId mode) r = Some r' \<longrightarrow>
            instanceDao r' = instanceDao r \<and> fetches r' = fetches r \<and>
            inFlight r' = (inFlight r)(componentId \<mapsto> n + 1) \<and>
            length (tasks r') = length (tasks r) + 1 \<and> take (length (tasks r)) (tasks r') = tasks r \<and>
            k_pc (last (tasks r')) = Settled None \<and> k_requestSerial (last (tasks r')) = None)"
  using assms by (simp add: step_def reactCall_def readKey_def addTask_def newTask_def)

lemma firstInFlight_run:
  "map_option (\<lambda>r. (inFlight r ''counter'',
                     getComponentNameAndId (instanceDao r) ''counter'',
                     getReactorMode (Some SERVER_WAIT) (reactorConfig r),
                     map k_pc (tasks r), length (fetches r)))
     (run counterCollab firstInFlight counterReactor)
   = Some (Some 1, Inr (''counter'', None), Inr SERVER_WAIT,
           [Settled None, AwaitFetch None], 1)"
  by code_simp

theorem server_wait_is_dropped_witness:
  "\<exists>r r'. run counterCollab firstInFlight counterReactor = Some r \<and>
          inFlight r ''counter'' = Some 1 \<and>
          step counterCollab (React ''counter'' (Some SERVER_WAIT)) r = Some r' \<and>
          instanceDao r' = instanceDao r \<and> fetches r' = fetches r \<and>
          inFlight r' ''counter'' = Some 2 \<and>
          map k_pc (tasks r') = [Settled None, AwaitFetch None, Settled None]"
proof -
  from firstInFlight_run obtain r where
    r: "run counterCollab firstInFlight counterReactor = Some r" and
    e: "(inFlight r ''counter'', getComponentNameAndId (instanceDao r) ''counter'',
         getReactorMode (Some SERVER_WAIT) (reactorConfig r), map k_pc (tasks r), length (fetches r))
        = (Some 1, Inr (''counter'', None), Inr SERVER_WAIT, [Settled None, AwaitFetch None], 1)"
    unfolding map_option_eq_Some by (elim exE conjE)
  from e have
    n: "inFlight r ''counter'' = Some 1" and
    g: "getComponentNameAndId (instanceDao r) ''counter'' = Inr (''counter'', None)" and
    m: "getReactorMode (Some SERVER_WAIT) (reactorConfig r) = Inr SERVER_WAIT" and
    p: "map k_pc (tasks r) = [Settled None, AwaitFetch None]"
    by (simp_all only: prod.inject)
  define r' where "r' = r\<lparr> inFlight := (inFlight r)(''counter'' \<mapsto> 1 + 1),
      tasks := tasks r @ [newTask True ''counter'' ''counter'' None (Some SERVER_WAIT) SERVER_WAIT (Settled None)] \<rparr>"
  have s: "step counterCollab (React ''counter'' (Some SERVER_WAIT)) r = Some r'"
    unfolding r'_def by (rule server_wait_is_dropped [OF n g m, of counterCollab, THEN conjunct1])
  have d: "instanceDao r' = instanceDao r" and f: "fetches r' = fetches r"
    and c: "inFlight r' ''counter'' = Some 2"
    and q: "map k_pc (tasks r') = [Settled None, AwaitFetch None, Settled None]"
    using p by (simp_all add: r'_def newTask_def)
  show ?thesis
    by (intro exI [of _ r] exI [of _ r'] conjI) (fact r n s d f c q)+
qed

subsection \<open>Completion of the call with serial number 1\<close>

lemma addTask_call:
  "addTask t r = (k, r') \<Longrightarrow> k = length (tasks r) \<and> tasks r' = tasks r @ [t] \<and>
     inFlight r' = inFlight r"
  by (auto simp: addTask_def)









subsection \<open>Calls with a mode that is not a mode\<close>







subsection \<open>Encoding after decoding\<close>

lemma getProp_Cons [simp]:
  "getProp ((k, v) # kvs) key = (if key = k then v else getProp kvs key)"
  by (simp add: getProp_def)

lemma getProp_Nil [simp]: "getProp [] key = JUndefined"
  by (simp add: getProp_def)








lemma depthFields_getProp:
  "k \<in> set (map fst vs) \<Longrightarrow> depth (getProp vs k) \<le> depthFields vs"
  by (induction vs) (auto simp: rev_image_eqI max.coboundedI2)












end
